theory Spec2Isabelle
  imports Complex_Main
begin

section \<open>Values of the host language\<close>

text \<open>
  The region editor (\<^verbatim>\<open>config.js\<close>) is JavaScript. Numbers are modelled as exact reals,
  so rounding, overflow and the non-finite doubles are outside this development; where the
  configuration spells out an infinity, the model of \<^verbatim>\<open>loadConfig\<close> says so.
  A value read from the persisted configuration is JSON; a property that is absent
  (JavaScript's \<^verbatim>\<open>undefined\<close>) is \<open>None\<close> of a \<open>json option\<close>.
\<close>

datatype json =
    JNull
  | JBool bool
  | JNum real
  | JStr string
  | JArr "json list"
  | JObj "(string \<times> json) list"

datatype error = TypeError

text \<open>Truthiness, as \<^verbatim>\<open>if (v)\<close>, \<^verbatim>\<open>!v\<close> and \<^verbatim>\<open>v || w\<close> test it.\<close>

fun truthy :: "json option \<Rightarrow> bool" where
  "truthy None = False"
| "truthy (Some JNull) = False"
| "truthy (Some (JBool b)) = b"
| "truthy (Some (JNum r)) = (r \<noteq> 0)"
| "truthy (Some (JStr s)) = (s \<noteq> [])"
| "truthy (Some (JArr vs)) = True"
| "truthy (Some (JObj kvs)) = True"

text \<open>\<^verbatim>\<open>a || b\<close> on numbers: the first operand unless it is zero.\<close>

definition num_or :: "real \<Rightarrow> real \<Rightarrow> real" where
  "num_or a b = (if a \<noteq> 0 then a else b)"

text \<open>The remainder operator \<^verbatim>\<open>%\<close> on integers truncates: the sign follows the dividend.\<close>

definition js_rem :: "int \<Rightarrow> int \<Rightarrow> int" where
  "js_rem a n = sgn a * (\<bar>a\<bar> mod \<bar>n\<bar>)"

text \<open>\<^verbatim>\<open>Math.atan2(y, x)\<close>, written out by quadrant; its value lies in \<open>(-\<pi>, \<pi>]\<close>.\<close>

definition atan2 :: "real \<Rightarrow> real \<Rightarrow> real" where
  "atan2 y x =
     (if 0 < x then arctan (y / x)
      else if x < 0 \<and> 0 \<le> y then arctan (y / x) + pi
      else if x < 0 then arctan (y / x) - pi
      else if 0 < y then pi / 2
      else if y < 0 then - (pi / 2)
      else 0)"

section \<open>Data model\<close>

text \<open>
  A region is a plain object and so is each of its corners, with \<^verbatim>\<open>x\<close> and \<^verbatim>\<open>y\<close> finite
  numbers. Every region the editor creates is of this kind, and so is every record of the
  documented configuration format. What else a hand-edited configuration can put into
  \<^verbatim>\<open>appState.displays\<close> (an array standing in for a region or for a corner, a coordinate
  \<^verbatim>\<open>Infinity\<close>) is not a value of the types below; the model of \<^verbatim>\<open>loadConfig\<close> reports such
  input instead of passing it off as a region.
\<close>

record point =
  px :: real
  py :: real

text \<open>
  The \<^verbatim>\<open>rotation\<close> field is written by \<^verbatim>\<open>parseInt\<close> (an integer or \<^verbatim>\<open>NaN\<close>), by the
  rotate gesture (an integer) and by the JSON round trip of a snapshot, which turns
  \<^verbatim>\<open>NaN\<close> into \<^verbatim>\<open>null\<close>.
\<close>

datatype rotval = RotNaN | RotNull | Rot int

record display =
  did :: "json option"
  dname :: "json option"
  camId :: "json option"
  corners :: "point list"
  rotation :: rotval
  enablePerspective :: "json option"
  box_x :: "real option"
  box_y :: "real option"
  box_w :: "real option"
  box_h :: "real option"
  extra :: "(string \<times> json) list"

text \<open>The module-level variables of \<^verbatim>\<open>config.js\<close> together with \<^verbatim>\<open>window.appState\<close>.\<close>

record editor =
  displays :: "display list"
  selectedCameraId :: "json option"
  activeDisplayId :: "json option"
  isDragging :: bool
  isResizing :: bool
  isDrawing :: bool
  drawingDisplayId :: "json option"
  dragStartX :: real
  dragStartY :: real
  activeCornerIndex :: int
  originalCorners :: "point list"
  isRotating :: bool
  activeSideIndex :: int
  rotateStartAngle :: real
  rotateStartValue :: int
  displayCenter :: point
  undoStack :: "display list list"
  redoStack :: "display list list"

text \<open>
  The values the module starts with. \<^verbatim>\<open>dragStartX\<close> and \<^verbatim>\<open>dragStartY\<close> are declared
  without a value; they are read only after a press has assigned them, so \<open>0\<close> stands
  for the unassigned variable. \<^verbatim>\<open>null\<close> is \<open>Some JNull\<close>.
\<close>

definition initial :: "display list \<Rightarrow> editor" where
  "initial ds =
     \<lparr> displays = ds, selectedCameraId = Some JNull, activeDisplayId = Some JNull,
       isDragging = False, isResizing = False, isDrawing = False,
       drawingDisplayId = Some JNull, dragStartX = 0, dragStartY = 0,
       activeCornerIndex = - 1, originalCorners = [], isRotating = False,
       activeSideIndex = - 1, rotateStartAngle = 0, rotateStartValue = 0,
       displayCenter = \<lparr> px = 0, py = 0 \<rparr>, undoStack = [], redoStack = [] \<rparr>"

section \<open>History: \<^verbatim>\<open>saveState\<close>, \<^verbatim>\<open>undo\<close>, \<^verbatim>\<open>redo\<close>\<close>

text \<open>
  \<^verbatim>\<open>JSON.parse(JSON.stringify(displays))\<close>: a deep copy. Of a plain object it keeps every
  own property: a finite number, a string, a boolean, \<^verbatim>\<open>null\<close> and a nested JSON value
  come back unchanged, and a property that is absent stays absent. \<^verbatim>\<open>NaN\<close> is serialised
  as \<^verbatim>\<open>null\<close>, and the only \<^verbatim>\<open>NaN\<close> a region can hold is its rotation. The copy also loses
  the named properties of an array and turns an infinite number into \<^verbatim>\<open>null\<close>; neither is
  a value of the region types (see the data model), so neither occurs here.
\<close>

definition clone_display :: "display \<Rightarrow> display" where
  "clone_display d = d\<lparr> rotation := (case rotation d of RotNaN \<Rightarrow> RotNull | r \<Rightarrow> r) \<rparr>"

definition clone :: "display list \<Rightarrow> display list" where
  "clone ds = map clone_display ds"

definition saveState :: "editor \<Rightarrow> editor" where
  "saveState s =
     (let pushed = undoStack s @ [clone (displays s)];
          kept = (if length pushed > 50 then tl pushed else pushed)
      in s\<lparr> undoStack := kept, redoStack := [] \<rparr>)"

definition undo :: "editor \<Rightarrow> editor" where
  "undo s =
     (if undoStack s = [] then s
      else s\<lparr> redoStack := redoStack s @ [clone (displays s)],
              undoStack := butlast (undoStack s),
              displays := last (undoStack s) \<rparr>)"

definition redo :: "editor \<Rightarrow> editor" where
  "redo s =
     (if redoStack s = [] then s
      else s\<lparr> undoStack := undoStack s @ [clone (displays s)],
              redoStack := butlast (redoStack s),
              displays := last (redoStack s) \<rparr>)"

section \<open>Geometry\<close>

text \<open>
  The two coordinate conversions the handlers write inline: a native corner is drawn at
  \<^verbatim>\<open>offset + c * scale\<close>, and a pointer position is taken back with
  \<^verbatim>\<open>(mouse - offset) / scale\<close>.
\<close>

definition toRendered :: "real \<Rightarrow> real \<Rightarrow> real \<Rightarrow> point \<Rightarrow> point" where
  "toRendered offsetX offsetY scale c =
     \<lparr> px = offsetX + px c * scale, py = offsetY + py c * scale \<rparr>"

definition toNative :: "real \<Rightarrow> real \<Rightarrow> real \<Rightarrow> point \<Rightarrow> point" where
  "toNative offsetX offsetY scale q =
     \<lparr> px = (px q - offsetX) / scale, py = (py q - offsetY) / scale \<rparr>"

text \<open>
  \<^verbatim>\<open>isPointInPoly\<close>: the loop \<^verbatim>\<open>for (i = 0, j = n - 1; i < n; j = i++)\<close> carries the
  previous index \<open>j\<close> and the parity \<open>c\<close>. The division is evaluated only when the two
  ordinates differ, as the short-circuit \<^verbatim>\<open>&&\<close> ensures.
\<close>

definition crosses :: "point \<Rightarrow> point \<Rightarrow> point \<Rightarrow> bool" where
  "crosses pt vi vj =
     (((py vi \<le> py pt \<and> py pt < py vj) \<or> (py vj \<le> py pt \<and> py pt < py vi)) \<and>
      px pt < (px vj - px vi) * (py pt - py vi) / (py vj - py vi) + px vi)"

definition isPointInPoly :: "point \<Rightarrow> point list \<Rightarrow> bool" where
  "isPointInPoly pt poly =
     snd (fold (\<lambda>i (j, c). (i, if crosses pt (poly ! i) (poly ! j) then \<not> c else c))
            [0..<length poly] (length poly - 1, False))"

text \<open>\<^verbatim>\<open>distToSegment\<close>: distance from \<open>p\<close> to the segment \<open>v\<close>--\<open>w\<close>.\<close>

definition distToSegment :: "point \<Rightarrow> point \<Rightarrow> point \<Rightarrow> real" where
  "distToSegment p v w =
     (let l2 = (px v - px w)\<^sup>2 + (py v - py w)\<^sup>2
      in if l2 = 0 then sqrt ((px p - px v)\<^sup>2 + (py p - py v)\<^sup>2)
         else let t0 = ((px p - px v) * (px w - px v) + (py p - py v) * (py w - py v)) / l2;
                  t = max 0 (min 1 t0)
              in sqrt ((px p - (px v + t * (px w - px v)))\<^sup>2 +
                       (py p - (py v + t * (py w - py v)))\<^sup>2))"

text \<open>
  \<^verbatim>\<open>getPolyCenter\<close>: the mean of the corners, by two \<^verbatim>\<open>reduce\<close> passes. Its only caller
  passes a list it has already indexed at 0 and 1, so the list is never empty there.
\<close>

definition getPolyCenter :: "point list \<Rightarrow> point" where
  "getPolyCenter poly =
     \<lparr> px = fold (\<lambda>p sum. sum + px p) poly 0 / real (length poly),
       py = fold (\<lambda>p sum. sum + py p) poly 0 / real (length poly) \<rparr>"

definition rotatePoint :: "point \<Rightarrow> point \<Rightarrow> real \<Rightarrow> point" where
  "rotatePoint p center angleDeg =
     (let rad = angleDeg * pi / 180;
          s = sin rad;
          c = cos rad;
          qx = px p - px center;
          qy = py p - py center
      in \<lparr> px = qx * c - qy * s + px center, py = qx * s + qy * c + py center \<rparr>)"

definition rotatePoints :: "point list \<Rightarrow> point \<Rightarrow> real \<Rightarrow> point list" where
  "rotatePoints points center angleDeg = map (\<lambda>p. rotatePoint p center angleDeg) points"

text \<open>Euclidean distance between two corners.\<close>

definition pdist :: "point \<Rightarrow> point \<Rightarrow> real" where
  "pdist p q = sqrt ((px p - px q)\<^sup>2 + (py p - py q)\<^sup>2)"

section \<open>The rendered media element\<close>

text \<open>
  The element the overlay is drawn on: the \<^verbatim>\<open>video\<close> layer when it is shown, else the
  \<^verbatim>\<open>img\<close> layer. A video has \<^verbatim>\<open>videoWidth\<close> and \<^verbatim>\<open>width\<close>, an image \<^verbatim>\<open>naturalWidth\<close> and
  \<^verbatim>\<open>width\<close>; the property the other kind has is \<^verbatim>\<open>undefined\<close> on it.
\<close>

datatype target = Video real real | Img real real

text \<open>
  What a handler reads from the page: the media rectangle relative to the container
  (\<^verbatim>\<open>mediaRect.left - rect.left\<close>, \<^verbatim>\<open>mediaRect.top - rect.top\<close>, its width and height)
  and the element itself.
\<close>

record view =
  mediaLeft :: real
  mediaTop :: real
  mediaWidth :: real
  mediaHeight :: real
  element :: target

text \<open>
  The press handler computes
  \<^verbatim>\<open>nativeW = (tagName === 'VIDEO') ? videoWidth : (naturalWidth || width)\<close> and
  \<^verbatim>\<open>scale = renderedW / (nativeW || 1)\<close>.
\<close>

definition scale_press :: "view \<Rightarrow> real" where
  "scale_press v =
     (let nativeW = (case element v of Video vw w \<Rightarrow> vw | Img nw w \<Rightarrow> num_or nw w)
      in mediaWidth v / num_or nativeW 1)"

text \<open>
  The move handler computes
  \<^verbatim>\<open>scale = mediaRect.width / (videoWidth || naturalWidth || width || 1)\<close>.
\<close>

definition scale_move :: "view \<Rightarrow> real" where
  "scale_move v =
     mediaWidth v /
       (case element v of
          Video vw w \<Rightarrow> num_or vw (num_or w 1)
        | Img nw w \<Rightarrow> num_or nw (num_or w 1))"

text \<open>A press: pointer position relative to the container, the Alt key, and \<^verbatim>\<open>Date.now()\<close>.\<close>

record press =
  mouseX :: real
  mouseY :: real
  altKey :: bool
  timeStamp :: nat

text \<open>Decimal digits of a number, as string concatenation \<^verbatim>\<open>'disp_' + Date.now()\<close> renders it.\<close>

fun show_nat :: "nat \<Rightarrow> string" where
  "show_nat n =
     (if n < 10 then [''0123456789'' ! n]
      else show_nat (n div 10) @ [''0123456789'' ! (n mod 10)])"

definition newId :: "nat \<Rightarrow> json option" where
  "newId t = Some (JStr (''disp_'' @ show_nat t))"

section \<open>Pointer handlers\<close>

text \<open>\<^verbatim>\<open>d.rotation || 0\<close>.\<close>

fun rot_or_zero :: "rotval \<Rightarrow> int" where
  "rot_or_zero (Rot n) = n"
| "rot_or_zero RotNaN = 0"
| "rot_or_zero RotNull = 0"

text \<open>
  Priority 1. \<^verbatim>\<open>forEach\<close> visits every corner and overwrites \<^verbatim>\<open>handleIdx\<close>, so the last
  corner within 15 rendered pixels wins.
\<close>

definition cornerHandle :: "real \<Rightarrow> real \<Rightarrow> real \<Rightarrow> real \<Rightarrow> real \<Rightarrow> point list \<Rightarrow> int" where
  "cornerHandle offX offY scale mx my cs =
     fold (\<lambda>(c, idx) handleIdx.
             let sx = offX + px c * scale; sy = offY + py c * scale
             in if \<bar>mx - sx\<bar> < 15 \<and> \<bar>my - sy\<bar> < 15 then int idx else handleIdx)
          (zip cs [0..<length cs]) (- 1)"

text \<open>
  Priority 2. The rotation handle sits 40 rendered pixels from the midpoint of the edge
  between corner 0 and corner 1, along its normal.
\<close>

definition rotationHandle :: "real \<Rightarrow> real \<Rightarrow> real \<Rightarrow> point \<Rightarrow> point \<Rightarrow> point" where
  "rotationHandle offX offY scale c0 c1 =
     (let s0 = toRendered offX offY scale c0;
          s1 = toRendered offX offY scale c1;
          midX = (px s0 + px s1) / 2;
          midY = (py s0 + py s1) / 2;
          dx = px s1 - px s0;
          dy = py s1 - py s0;
          len = num_or (sqrt (dx * dx + dy * dy)) 1;
          nx = - dy / len;
          ny = dx / len
      in \<lparr> px = midX + nx * 40, py = midY + ny * 40 \<rparr>)"

text \<open>
  Priority 3. The loop over the four sides stops at the first side closer than 10 rendered
  pixels. Reading \<^verbatim>\<open>.x\<close> of a corner that is not there throws.
\<close>

fun sideLoop :: "real \<Rightarrow> real \<Rightarrow> real \<Rightarrow> point \<Rightarrow> point list \<Rightarrow> nat list \<Rightarrow> error + int" where
  "sideLoop offX offY scale m cs [] = Inr (- 1)"
| "sideLoop offX offY scale m cs (i # rest) =
     (if i < length cs \<and> (i + 1) mod 4 < length cs then
        (if distToSegment m (toRendered offX offY scale (cs ! i))
              (toRendered offX offY scale (cs ! ((i + 1) mod 4))) < 10
         then Inr (int i)
         else sideLoop offX offY scale m cs rest)
      else Inl TypeError)"

text \<open>
  The assignments of the four kinds of hit. Each takes the snapshot first, then records
  the region, the kind of gesture, the pointer position and a copy of the corners.
\<close>

definition pressCorner :: "press \<Rightarrow> display \<Rightarrow> int \<Rightarrow> editor \<Rightarrow> editor" where
  "pressCorner e d handleIdx s =
     (saveState s)
       \<lparr> activeDisplayId := did d, activeCornerIndex := handleIdx, isResizing := True,
         dragStartX := mouseX e, dragStartY := mouseY e, originalCorners := corners d \<rparr>"

definition pressRotate :: "press \<Rightarrow> real \<Rightarrow> real \<Rightarrow> real \<Rightarrow> display \<Rightarrow> editor \<Rightarrow> editor" where
  "pressRotate e offX offY scale d s =
     (let center = getPolyCenter (corners d) in
      (saveState s)
        \<lparr> activeDisplayId := did d, isRotating := True, displayCenter := center,
          rotateStartAngle :=
            atan2 (mouseY e - (offY + py center * scale))
                  (mouseX e - (offX + px center * scale)) * 180 / pi,
          rotateStartValue := rot_or_zero (rotation d),
          originalCorners := corners d \<rparr>)"

definition pressSide :: "press \<Rightarrow> display \<Rightarrow> int \<Rightarrow> editor \<Rightarrow> editor" where
  "pressSide e d sideIdx s =
     (saveState s)
       \<lparr> activeDisplayId := did d, activeSideIndex := sideIdx, isResizing := False,
         dragStartX := mouseX e, dragStartY := mouseY e, originalCorners := corners d \<rparr>"

definition pressInside :: "press \<Rightarrow> display \<Rightarrow> editor \<Rightarrow> editor" where
  "pressInside e d s =
     (saveState s)
       \<lparr> activeDisplayId := did d, isDragging := True,
         dragStartX := mouseX e, dragStartY := mouseY e, originalCorners := corners d \<rparr>"

text \<open>
  The body of \<^verbatim>\<open>for (const d of displayOrder)\<close>: \<open>Some\<close> is a hit (the loop breaks with the
  new editor state), \<open>None\<close> lets the loop go on to the next region.
\<close>

definition hitDisplay :: "press \<Rightarrow> real \<Rightarrow> real \<Rightarrow> real \<Rightarrow> display \<Rightarrow> editor \<Rightarrow> error + editor option" where
  "hitDisplay e offX offY scale d s =
     (let handleIdx = cornerHandle offX offY scale (mouseX e) (mouseY e) (corners d) in
      if handleIdx \<noteq> - 1 then Inr (Some (pressCorner e d handleIdx s))
      else
        (case corners d of
           c0 # c1 # _ \<Rightarrow>
             (let hr = rotationHandle offX offY scale c0 c1 in
              if \<bar>mouseX e - px hr\<bar> < 15 \<and> \<bar>mouseY e - py hr\<bar> < 15 then
                Inr (Some (pressRotate e offX offY scale d s))
              else
                (case sideLoop offX offY scale \<lparr> px = mouseX e, py = mouseY e \<rparr> (corners d)
                        [0, 1, 2, 3] of
                   Inl err \<Rightarrow> Inl err
                 | Inr sideIdx \<Rightarrow>
                     if sideIdx \<noteq> - 1 then Inr (Some (pressSide e d sideIdx s))
                     else
                       (let nativePt = toNative offX offY scale \<lparr> px = mouseX e, py = mouseY e \<rparr> in
                        if isPointInPoly nativePt (corners d) then
                          Inr (Some (pressInside e d s))
                        else Inr None)))
         | _ \<Rightarrow> Inl TypeError))"

fun hitLoop :: "press \<Rightarrow> real \<Rightarrow> real \<Rightarrow> real \<Rightarrow> display list \<Rightarrow> editor \<Rightarrow> error + editor option" where
  "hitLoop e offX offY scale [] s = Inr None"
| "hitLoop e offX offY scale (d # ds) s =
     (case hitDisplay e offX offY scale d s of
        Inl err \<Rightarrow> Inl err
      | Inr (Some s') \<Rightarrow> Inr (Some s')
      | Inr None \<Rightarrow> hitLoop e offX offY scale ds s)"

text \<open>
  No region was hit: a provisional region with its four corners on the click point is
  appended, after the snapshot.
\<close>

definition startDrawing :: "press \<Rightarrow> real \<Rightarrow> real \<Rightarrow> real \<Rightarrow> editor \<Rightarrow> editor" where
  "startDrawing e offX offY scale s =
     (let s1 = saveState s;
          nx = (mouseX e - offX) / scale;
          ny = (mouseY e - offY) / scale;
          newD = \<lparr> did = newId (timeStamp e), dname = Some (JStr ''New Display''),
                   camId = selectedCameraId s1,
                   corners = [\<lparr> px = nx, py = ny \<rparr>, \<lparr> px = nx, py = ny \<rparr>,
                              \<lparr> px = nx, py = ny \<rparr>, \<lparr> px = nx, py = ny \<rparr>],
                   rotation = Rot 0, enablePerspective = Some (JBool False),
                   box_x = None, box_y = None, box_w = None, box_h = None, extra = [] \<rparr>
      in s1\<lparr> displays := displays s1 @ [newD], isDrawing := True,
              activeDisplayId := newId (timeStamp e),
              drawingDisplayId := newId (timeStamp e),
              activeCornerIndex := 2, originalCorners := corners newD,
              dragStartX := mouseX e, dragStartY := mouseY e \<rparr>)"

text \<open>
  The \<^verbatim>\<open>mousedown\<close> listener. The second argument is \<open>None\<close> when neither media layer is
  shown. A \<^verbatim>\<open>TypeError\<close> can only arise before any assignment, so the state it leaves
  is the state it found.
\<close>

definition mousedown :: "press \<Rightarrow> view option \<Rightarrow> editor \<Rightarrow> error + editor" where
  "mousedown e tgt s =
     (case tgt of
        None \<Rightarrow> Inr s
      | Some v \<Rightarrow>
          (let offX = mediaLeft v; offY = mediaTop v in
           if mouseX e < offX \<or> mouseX e > offX + mediaWidth v \<or>
              mouseY e < offY \<or> mouseY e > offY + mediaHeight v
           then Inr s
           else
             (let scale = scale_press v;
                  visibleDisplays = filter (\<lambda>d. camId d = selectedCameraId s) (displays s);
                  displayOrder = (if altKey e then visibleDisplays else rev visibleDisplays)
              in case hitLoop e offX offY scale displayOrder s of
                   Inl err \<Rightarrow> Inl err
                 | Inr (Some s') \<Rightarrow> Inr s'
                 | Inr None \<Rightarrow> Inr (startDrawing e offX offY scale s))))"

text \<open>
  \<^verbatim>\<open>displays.find(x => x.id === activeDisplayId)\<close> yields the first region with that id,
  and the handler then mutates that object in place.
\<close>

fun updateFirst :: "('a \<Rightarrow> bool) \<Rightarrow> ('a \<Rightarrow> 'a) \<Rightarrow> 'a list \<Rightarrow> 'a list" where
  "updateFirst P f [] = []"
| "updateFirst P f (x # xs) = (if P x then f x # xs else x # updateFirst P f xs)"

definition validIdx :: "int \<Rightarrow> 'a list \<Rightarrow> bool" where
  "validIdx i xs = (0 \<le> i \<and> nat i < length xs)"

text \<open>
  The branches of the \<^verbatim>\<open>mousemove\<close> listener on the active region \<open>d\<close>, in the order of
  its \<^verbatim>\<open>if\<close> chain. Every branch starts from \<^verbatim>\<open>originalCorners\<close>, the copy taken at the
  press. Indexing a corner that is not there throws.
\<close>

definition moveDisplay :: "real \<Rightarrow> real \<Rightarrow> view \<Rightarrow> editor \<Rightarrow> display \<Rightarrow> error + display" where
  "moveDisplay mx my v s d =
     (let dx = mx - dragStartX s;
          dy = my - dragStartY s;
          ox = mediaLeft v;
          oy = mediaTop v;
          scale = scale_move v;
          ndx = dx / scale;
          ndy = dy / scale;
          oc = originalCorners s;
          cs = corners d
      in
      if isRotating s then
        (let currentAngle =
               atan2 (my - (oy + py (displayCenter s) * scale))
                     (mx - (ox + px (displayCenter s) * scale)) * 180 / pi;
             delta = currentAngle - rotateStartAngle s;
             r = js_rem (rotateStartValue s + round delta) 360
         in Inr (d\<lparr> corners := rotatePoints oc (displayCenter s) delta,
                    rotation := Rot (if r < 0 then r + 360 else r) \<rparr>))
      else if isDrawing s then
        (if 4 \<le> length cs \<and> 4 \<le> length oc then
           (let cs1 = cs[1 := (cs ! 1)\<lparr> px := px (oc ! 1) + ndx \<rparr>];
                cs2 = cs1[2 := (cs1 ! 2)\<lparr> px := px (oc ! 2) + ndx, py := py (oc ! 2) + ndy \<rparr>];
                cs3 = cs2[3 := (cs2 ! 3)\<lparr> py := py (oc ! 3) + ndy \<rparr>]
            in Inr (d\<lparr> corners := cs3 \<rparr>))
         else Inl TypeError)
      else if isDragging s then
        Inr (d\<lparr> corners := map (\<lambda>c. \<lparr> px = px c + ndx, py = py c + ndy \<rparr>) oc \<rparr>)
      else if isResizing s then
        (let i = activeCornerIndex s in
         if validIdx i cs \<and> validIdx i oc then
           Inr (d\<lparr> corners :=
                  cs[nat i := (cs ! nat i)\<lparr> px := px (oc ! nat i) + ndx,
                                            py := py (oc ! nat i) + ndy \<rparr>] \<rparr>)
         else Inl TypeError)
      else if activeSideIndex s \<noteq> - 1 then
        (let i1 = activeSideIndex s;
             i2 = js_rem (activeSideIndex s + 1) 4
         in
         if validIdx i1 cs \<and> validIdx i1 oc \<and> validIdx i2 cs \<and> validIdx i2 oc then
           (let cs1 = cs[nat i1 := (cs ! nat i1)\<lparr> px := px (oc ! nat i1) + ndx,
                                                  py := py (oc ! nat i1) + ndy \<rparr>];
                cs2 = cs1[nat i2 := (cs1 ! nat i2)\<lparr> px := px (oc ! nat i2) + ndx,
                                                    py := py (oc ! nat i2) + ndy \<rparr>]
            in Inr (d\<lparr> corners := cs2 \<rparr>))
         else Inl TypeError)
      else Inr d)"

definition mousemove :: "real \<Rightarrow> real \<Rightarrow> view \<Rightarrow> editor \<Rightarrow> error + editor" where
  "mousemove mx my v s =
     (if \<not> isDragging s \<and> \<not> isResizing s \<and> \<not> isDrawing s \<and> \<not> isRotating s \<and>
         activeSideIndex s = - 1
      then Inr s
      else
        (case find (\<lambda>x. did x = activeDisplayId s) (displays s) of
           None \<Rightarrow> Inr s
         | Some d \<Rightarrow>
             (case moveDisplay mx my v s d of
                Inl err \<Rightarrow> Inl err
              | Inr d' \<Rightarrow>
                  Inr (s\<lparr> displays :=
                         updateFirst (\<lambda>x. did x = activeDisplayId s) (\<lambda>_. d') (displays s) \<rparr>))))"

text \<open>
  The \<^verbatim>\<open>mouseup\<close> listener: a drawn region narrower or lower than 20 native pixels is
  filtered out by its id; then every gesture flag is reset.
\<close>

definition mouseup :: "editor \<Rightarrow> error + editor" where
  "mouseup s =
     (let checked =
            (if isDrawing s \<and> truthy (drawingDisplayId s) then
               (case find (\<lambda>x. did x = drawingDisplayId s) (displays s) of
                  None \<Rightarrow> Inr s
                | Some d \<Rightarrow>
                    (case corners d of
                       c0 # c1 # c2 # _ \<Rightarrow>
                         (let w = \<bar>px c0 - px c2\<bar>; h = \<bar>py c0 - py c2\<bar> in
                          if w < 20 \<or> h < 20 then
                            Inr (s\<lparr> displays :=
                                     filter (\<lambda>x. did x \<noteq> drawingDisplayId s) (displays s),
                                   activeDisplayId := Some JNull \<rparr>)
                          else Inr s)
                     | _ \<Rightarrow> Inl TypeError))
             else Inr s)
      in case checked of
           Inl err \<Rightarrow> Inl err
         | Inr s' \<Rightarrow>
             Inr (s'\<lparr> isDragging := False, isResizing := False, isDrawing := False,
                      isRotating := False, activeCornerIndex := - 1,
                      activeSideIndex := - 1 \<rparr>))"

text \<open>
  The bounding box \<^verbatim>\<open>saveConfig\<close> derives from the corners: \<^verbatim>\<open>Math.min\<close> and \<^verbatim>\<open>Math.max\<close>
  over the abscissas and the ordinates. Of no corners they are infinite, hence \<open>None\<close>.
\<close>

definition boundingBox :: "point list \<Rightarrow> (real \<times> real \<times> real \<times> real) option" where
  "boundingBox cs =
     (case cs of
        [] \<Rightarrow> None
      | c # rest \<Rightarrow>
          (let minX = fold min (map px rest) (px c);
               minY = fold min (map py rest) (py c);
               maxX = fold max (map px rest) (px c);
               maxY = fold max (map py rest) (py c)
           in Some (minX, minY, maxX - minX, maxY - minY)))"

section \<open>Reading numbers from text\<close>

text \<open>
  \<^verbatim>\<open>parseInt\<close> and \<^verbatim>\<open>parseFloat\<close> skip leading white space, read an optional sign and then
  the longest prefix that is a numeral; for \<^verbatim>\<open>parseInt\<close>, \<open>None\<close> is \<^verbatim>\<open>NaN\<close>. Strings are
  byte strings here, so only the ASCII white space is recognised.
\<close>

definition is_ws :: "char \<Rightarrow> bool" where
  "is_ws c = (c \<in> set [CHR '' '', CHR 0x09, CHR 0x0A, CHR 0x0B, CHR 0x0C, CHR 0x0D])"

definition is_digit :: "char \<Rightarrow> bool" where
  "is_digit c = (c \<in> set ''0123456789'')"

definition is_hex :: "char \<Rightarrow> bool" where
  "is_hex c = (c \<in> set ''0123456789abcdefABCDEF'')"

definition digit_val :: "char \<Rightarrow> nat" where
  "digit_val c =
     (if is_digit c then of_char c - 48
      else if c \<in> set ''abcdef'' then of_char c - 87
      else of_char c - 55)"

definition numeral_val :: "nat \<Rightarrow> string \<Rightarrow> nat" where
  "numeral_val radix ds = foldl (\<lambda>a c. radix * a + digit_val c) 0 ds"

definition strip_sign :: "string \<Rightarrow> bool \<times> string" where
  "strip_sign s =
     (case s of
        c # rest \<Rightarrow>
          if c = CHR ''-'' then (True, rest)
          else if c = CHR ''+'' then (False, rest)
          else (False, s)
      | [] \<Rightarrow> (False, s))"

definition parseInt_str :: "string \<Rightarrow> int option" where
  "parseInt_str s =
     (let (neg, body) = strip_sign (dropWhile is_ws s);
          hex = (take 2 body = ''0x'' \<or> take 2 body = ''0X'');
          ds = (if hex then takeWhile is_hex (drop 2 body) else takeWhile is_digit body);
          n = int (numeral_val (if hex then 16 else 10) ds)
      in if ds = [] then None else Some (if neg then - n else n))"

definition exponent_part :: "string \<Rightarrow> int" where
  "exponent_part s =
     (case s of
        c # rest \<Rightarrow>
          if c = CHR ''e'' \<or> c = CHR ''E'' then
            (let (neg, body) = strip_sign rest;
                 ds = takeWhile is_digit body;
                 n = int (numeral_val 10 ds)
             in if ds = [] then 0 else if neg then - n else n)
          else 0
      | [] \<Rightarrow> 0)"

text \<open>
  What \<^verbatim>\<open>parseFloat\<close> returns: \<^verbatim>\<open>NaN\<close>, a finite number, or an infinity.
\<close>

datatype parsed = PNaN | PNum real | PInf

text \<open>
  The literal \<^verbatim>\<open>Infinity\<close>, or a decimal literal: digits, an optional fraction, an optional
  exponent.
\<close>

definition parseFloat_str :: "string \<Rightarrow> parsed" where
  "parseFloat_str s =
     (let (neg, body) = strip_sign (dropWhile is_ws s);
          ip = takeWhile is_digit body;
          r1 = dropWhile is_digit body;
          dot = (r1 \<noteq> [] \<and> hd r1 = CHR ''.'');
          fp = (if dot then takeWhile is_digit (tl r1) else []);
          r2 = (if dot then dropWhile is_digit (tl r1) else r1);
          m = real (numeral_val 10 ip) + real (numeral_val 10 fp) / 10 ^ length fp;
          ex = exponent_part r2;
          v = (if 0 \<le> ex then m * 10 ^ nat ex else m / 10 ^ nat (- ex))
      in if take 8 body = ''Infinity'' then PInf
         else if ip = [] \<and> fp = [] then PNaN
         else PNum (if neg then - v else v))"

text \<open>
  Applied to a value that is not a string, both functions first convert it to one. A
  number prints so that \<^verbatim>\<open>parseFloat\<close> reads it back unchanged. \<^verbatim>\<open>parseInt\<close> reads the
  integer part of a number printed in positional notation (magnitudes from \<open>10\<^sup>-\<^sup>6\<close> up
  to \<open>10\<^sup>2\<^sup>1\<close>), and the leading digit of one printed in exponent notation. An array
  prints as its elements joined by commas, \<^verbatim>\<open>null\<close> elements as the empty string, so
  only its first element can contribute; \<^verbatim>\<open>null\<close>, booleans, objects and \<^verbatim>\<open>undefined\<close>
  print as words that are no numeral.
\<close>

fun parseFloat :: "json \<Rightarrow> parsed" where
  "parseFloat (JNum r) = PNum r"
| "parseFloat (JStr s) = parseFloat_str s"
| "parseFloat (JArr (v # vs)) = (case v of JNull \<Rightarrow> PNaN | _ \<Rightarrow> parseFloat v)"
| "parseFloat _ = PNaN"

text \<open>The leading digit of a number printed in exponent notation.\<close>

function lead_big :: "real \<Rightarrow> int" where
  "lead_big x = (if 10 \<le> x then lead_big (x / 10) else \<lfloor>x\<rfloor>)"
  by pat_completeness auto
termination
proof (relation "measure (\<lambda>x. nat \<lfloor>x\<rfloor>)")
  show "wf (measure (\<lambda>x::real. nat \<lfloor>x\<rfloor>))" by simp
next
  fix x :: real assume "10 \<le> x"
  then have "\<lfloor>x / 10\<rfloor> < \<lfloor>x\<rfloor>" by linarith
  moreover have "0 < \<lfloor>x\<rfloor>" using \<open>10 \<le> x\<close> by linarith
  ultimately show "(x / 10, x) \<in> measure (\<lambda>x. nat \<lfloor>x\<rfloor>)" by simp
qed

function lead_small :: "real \<Rightarrow> int" where
  "lead_small x = (if 0 < x \<and> x < 1 then lead_small (x * 10) else \<lfloor>x\<rfloor>)"
  by pat_completeness auto
termination
proof (relation "measure (\<lambda>x. nat \<lceil>1 / x\<rceil>)")
  show "wf (measure (\<lambda>x::real. nat \<lceil>1 / x\<rceil>))" by simp
next
  fix x :: real assume a: "0 < x \<and> x < 1"
  then have "1 < 1 / x" by simp
  then have c: "2 \<le> \<lceil>1 / x\<rceil>" by linarith
  have "1 / (x * 10) = (1 / x) / 10" by simp
  also have "\<dots> \<le> real_of_int \<lceil>1 / x\<rceil> / 10" by (simp add: divide_right_mono)
  also have "\<dots> \<le> real_of_int (\<lceil>1 / x\<rceil> - 1)" using c by linarith
  finally have "1 / (x * 10) \<le> real_of_int (\<lceil>1 / x\<rceil> - 1)" .
  then have "\<lceil>1 / (x * 10)\<rceil> \<le> \<lceil>1 / x\<rceil> - 1" by (rule ceiling_le)
  then show "(x * 10, x) \<in> measure (\<lambda>x. nat \<lceil>1 / x\<rceil>)"
    unfolding in_measure using c by linarith
qed

definition num_to_int :: "real \<Rightarrow> int" where
  "num_to_int r =
     (let sign = (if r < 0 then - 1 else 1) in
      if r = 0 then 0
      else if 1 / 10 ^ 6 \<le> \<bar>r\<bar> \<and> \<bar>r\<bar> < 10 ^ 21 then sign * \<lfloor>\<bar>r\<bar>\<rfloor>
      else if 10 ^ 21 \<le> \<bar>r\<bar> then sign * lead_big \<bar>r\<bar>
      else sign * lead_small \<bar>r\<bar>)"

fun parseInt :: "json \<Rightarrow> int option" where
  "parseInt (JNum r) = Some (num_to_int r)"
| "parseInt (JStr s) = parseInt_str s"
| "parseInt (JArr (v # vs)) = (case v of JNull \<Rightarrow> None | _ \<Rightarrow> parseInt v)"
| "parseInt _ = None"

text \<open>
  \<^verbatim>\<open>parseNum = (val) => isNaN(parseFloat(val)) ? 0 : parseFloat(val)\<close>, on a property. The
  result is a number, never \<^verbatim>\<open>NaN\<close>; it is \<open>None\<close> when that number is an infinity, which no
  real stands for.
\<close>

definition parseNum :: "json option \<Rightarrow> real option" where
  "parseNum val =
     (case val of
        None \<Rightarrow> Some 0
      | Some v \<Rightarrow> (case parseFloat v of PNaN \<Rightarrow> Some 0 | PNum r \<Rightarrow> Some r | PInf \<Rightarrow> None))"

section \<open>Loading the persisted regions\<close>

text \<open>
  \<^verbatim>\<open>display.corners && display.corners.length === 4\<close>: arrays and strings have a length,
  an object has one if it has such a property.
\<close>

fun hasLength4 :: "json option \<Rightarrow> bool" where
  "hasLength4 (Some (JArr cs)) = (length cs = 4)"
| "hasLength4 (Some (JStr s)) = (length s = 4)"
| "hasLength4 (Some (JObj kvs)) = (map_of kvs ''length'' = Some (JNum 4))"
| "hasLength4 _ = False"

text \<open>
  \<^verbatim>\<open>c.x = parseNum(c.x); c.y = parseNum(c.y)\<close> on one element of the corners array. The
  file is a module, hence strict code: reading a property of \<^verbatim>\<open>null\<close> throws, and so does
  assigning a property of a number, a string or a boolean. On an element that is itself an
  array both assignments succeed, and the result is an array that carries \<^verbatim>\<open>x\<close> and \<^verbatim>\<open>y\<close>:
  it is no plain corner, and neither is an object with an infinite coordinate, hence
  \<open>Inr None\<close> for both.
\<close>

fun loadCorner :: "json \<Rightarrow> error + point option" where
  "loadCorner (JObj kvs) =
     Inr (case (parseNum (map_of kvs ''x''), parseNum (map_of kvs ''y'')) of
            (Some x, Some y) \<Rightarrow> Some \<lparr> px = x, py = y \<rparr>
          | _ \<Rightarrow> None)"
| "loadCorner (JArr vs) = Inr None"
| "loadCorner _ = Inl TypeError"

text \<open>\<^verbatim>\<open>forEach\<close> with a callback that may throw: the first error ends the traversal.\<close>

fun forEach :: "('a \<Rightarrow> error + 'b) \<Rightarrow> 'a list \<Rightarrow> error + 'b list" where
  "forEach f [] = Inr []"
| "forEach f (x # xs) =
     (case f x of
        Inl err \<Rightarrow> Inl err
      | Inr y \<Rightarrow> (case forEach f xs of Inl err \<Rightarrow> Inl err | Inr ys \<Rightarrow> Inr (y # ys)))"

text \<open>
  The callback of \<^verbatim>\<open>savedDisplays.forEach\<close> on a record with the own properties \<open>kvs\<close>
  (each listed once). Only an array has a \<^verbatim>\<open>forEach\<close> method. The callback returns
  normally with \<open>Inr\<close>; \<open>Inr None\<close> says that what it has made of the record is not a
  region of the data model, because a corner is not a plain corner or a number is
  infinite.
\<close>

definition loadRecord :: "(string \<times> json) list \<Rightarrow> error + display option" where
  "loadRecord kvs =
     (let prop = map_of kvs;
          finish = (\<lambda>cs.
            (case (cs, parseNum (prop ''x''), parseNum (prop ''y''),
                   parseNum (prop ''w''), parseNum (prop ''h'')) of
               (Some pts, Some x, Some y, Some w, Some h) \<Rightarrow>
                 Some \<lparr> did = prop ''id'', dname = prop ''name'', camId = prop ''camId'',
                        corners = pts,
                        rotation = Rot (case prop ''rotation'' of
                                          None \<Rightarrow> 0
                                        | Some v \<Rightarrow>
                                            (case parseInt v of None \<Rightarrow> 0 | Some n \<Rightarrow> n)),
                        enablePerspective = prop ''enablePerspective'',
                        box_x = Some x, box_y = Some y, box_w = Some w, box_h = Some h,
                        extra = filter (\<lambda>(k, v). k \<notin> set [''id'', ''name'', ''camId'',
                                  ''corners'', ''rotation'', ''enablePerspective'', ''x'', ''y'',
                                  ''w'', ''h'']) kvs \<rparr>
             | _ \<Rightarrow> None))
      in
      if truthy (prop ''corners'') \<and> hasLength4 (prop ''corners'') then
        (case prop ''corners'' of
           Some (JArr cs) \<Rightarrow>
             (case forEach loadCorner cs of
                Inl err \<Rightarrow> Inl err
              | Inr pts \<Rightarrow> Inr (finish (those pts)))
         | _ \<Rightarrow> Inl TypeError)
      else
        Inr (finish
          (case (parseNum (prop ''x''), parseNum (prop ''y''),
                 parseNum (prop ''w''), parseNum (prop ''h'')) of
             (Some x, Some y, Some w, Some h) \<Rightarrow>
               Some [\<lparr> px = x, py = y \<rparr>, \<lparr> px = x + w, py = y \<rparr>,
                     \<lparr> px = x + w, py = y + h \<rparr>, \<lparr> px = x, py = y + h \<rparr>]
           | _ \<Rightarrow> None)))"

text \<open>
  An element of the list need not be a record. On an array the callback returns normally
  (none of the properties it reads is there, and the assignments succeed), leaving an
  array that carries the properties of a region: no plain region, hence \<open>Inr None\<close>.
  \<^verbatim>\<open>null\<close> throws on the first read; a number, string or boolean reads as \<^verbatim>\<open>undefined\<close>
  everywhere and throws when \<^verbatim>\<open>corners\<close> is assigned.
\<close>

fun loadDisplay :: "json \<Rightarrow> error + display option" where
  "loadDisplay (JObj kvs) = loadRecord kvs"
| "loadDisplay (JArr vs) = Inr None"
| "loadDisplay _ = Inl TypeError"

text \<open>
  What the traversal leaves to be assigned: nothing (the response holds no list), a list
  of regions, or a list in which some element is not a region of the data model.
\<close>

datatype loaded = NothingToLoad | Regions "display list" | NotRegions

text \<open>
  \<^verbatim>\<open>savedDisplays = Array.isArray(data) ? data : (data.displays || [])\<close>, then the
  traversal when that is an array.
\<close>

definition loadDisplays :: "json \<Rightarrow> error + loaded" where
  "loadDisplays data =
     (let saved =
            (case data of
               JArr vs \<Rightarrow> Inr (JArr vs)
             | JNull \<Rightarrow> Inl TypeError
             | JObj kvs \<Rightarrow>
                 (case map_of kvs ''displays'' of
                    None \<Rightarrow> Inr (JArr [])
                  | Some v \<Rightarrow> Inr (if truthy (Some v) then v else JArr []))
             | _ \<Rightarrow> Inr (JArr []))
      in case saved of
           Inl err \<Rightarrow> Inl err
         | Inr (JArr vs) \<Rightarrow>
             (case forEach loadDisplay vs of
                Inl err \<Rightarrow> Inl err
              | Inr ds \<Rightarrow>
                  Inr (case those ds of Some rs \<Rightarrow> Regions rs | None \<Rightarrow> NotRegions))
         | Inr _ \<Rightarrow> Inr NothingToLoad)"

text \<open>
  \<^verbatim>\<open>loadConfig\<close> on the parsed response. The \<^verbatim>\<open>catch\<close> clause logs the error; the
  assignment to \<^verbatim>\<open>appState.displays\<close> has not happened then. The result is \<open>None\<close> when
  the list that is assigned holds an element that is not a region of the data model: the
  editor is then in no state of type \<open>editor\<close>.
\<close>

definition loadConfig :: "json \<Rightarrow> editor \<Rightarrow> editor option" where
  "loadConfig data s =
     (case loadDisplays data of
        Inl err \<Rightarrow> Some s
      | Inr NothingToLoad \<Rightarrow> Some s
      | Inr (Regions ds) \<Rightarrow> Some (s\<lparr> displays := ds \<rparr>)
      | Inr NotRegions \<Rightarrow> None)"

section \<open>Toolbar and property panel\<close>

text \<open>
  The Update button: the panel's name, the text of its rotation field and its checkbox
  are written to the active region, after a snapshot.
\<close>

definition updateDisplay :: "string \<Rightarrow> string \<Rightarrow> bool \<Rightarrow> editor \<Rightarrow> editor" where
  "updateDisplay nameValue rotationValue perspectiveChecked s =
     (case find (\<lambda>x. did x = activeDisplayId s) (displays s) of
        None \<Rightarrow> s
      | Some d \<Rightarrow>
          (let s1 = saveState s in
           s1\<lparr> displays :=
                 updateFirst (\<lambda>x. did x = activeDisplayId s)
                   (\<lambda>d. d\<lparr> dname := Some (JStr nameValue),
                            rotation := (case parseInt_str rotationValue of
                                           None \<Rightarrow> RotNaN
                                         | Some n \<Rightarrow> Rot n),
                            enablePerspective := Some (JBool perspectiveChecked) \<rparr>)
                   (displays s1) \<rparr>))"

text \<open>The Remove button.\<close>

definition deleteDisplay :: "editor \<Rightarrow> editor" where
  "deleteDisplay s =
     (let s1 = saveState s in
      s1\<lparr> displays := filter (\<lambda>x. did x \<noteq> activeDisplayId s1) (displays s1),
          activeDisplayId := Some JNull \<rparr>)"

text \<open>The panel's close button.\<close>

definition closePropPanel :: "editor \<Rightarrow> editor" where
  "closePropPanel s = s\<lparr> activeDisplayId := Some JNull \<rparr>"

text \<open>\<^verbatim>\<open>startAddDisplayMode\<close>, the Add Region button; the argument is \<^verbatim>\<open>Date.now()\<close>.\<close>

definition startAddDisplayMode :: "nat \<Rightarrow> editor \<Rightarrow> editor" where
  "startAddDisplayMode t s =
     (let s1 = saveState s in
      if \<not> truthy (selectedCameraId s1) then s1
      else
        (let newD = \<lparr> did = newId t, dname = Some (JStr ''New Display''),
                      camId = selectedCameraId s1,
                      corners = [\<lparr> px = 100, py = 100 \<rparr>, \<lparr> px = 400, py = 100 \<rparr>,
                                 \<lparr> px = 400, py = 280 \<rparr>, \<lparr> px = 100, py = 280 \<rparr>],
                      rotation = Rot 0, enablePerspective = Some (JBool False),
                      box_x = Some 100, box_y = Some 100, box_w = Some 300, box_h = Some 180,
                      extra = [] \<rparr>
         in s1\<lparr> displays := displays s1 @ [newD], activeDisplayId := newId t \<rparr>))"

section \<open>Event sequences\<close>

text \<open>
  No gesture is in progress: the condition under which the \<^verbatim>\<open>mousemove\<close> listener returns
  at once. Every \<^verbatim>\<open>mouseup\<close> establishes it.
\<close>

definition idle :: "editor \<Rightarrow> bool" where
  "idle s =
     (\<not> isDragging s \<and> \<not> isResizing s \<and> \<not> isDrawing s \<and> \<not> isRotating s \<and>
      activeSideIndex s = - 1)"

text \<open>A run of \<^verbatim>\<open>mousemove\<close> events, each with the pointer position and the page it sees.\<close>

fun mousemoves :: "(real \<times> real \<times> view) list \<Rightarrow> editor \<Rightarrow> error + editor" where
  "mousemoves [] s = Inr s"
| "mousemoves ((mx, my, v) # rest) s =
     (case mousemove mx my v s of Inl err \<Rightarrow> Inl err | Inr s' \<Rightarrow> mousemoves rest s')"

text \<open>
  The states the editor can be in, as far as they are states of type \<open>editor\<close>. The last
  rule stands for the rest of the application
  (\<^verbatim>\<open>selectCamera\<close>, \<^verbatim>\<open>autoFuzzyMatch\<close>, the monitor view), which assigns \<^verbatim>\<open>appState\<close> but none
  of the module's own variables; it also covers what a handler that threw has left behind.
\<close>

inductive reachable :: "editor \<Rightarrow> bool" where
  start: "reachable (initial [])"
| load: "reachable s \<Longrightarrow> loadConfig data s = Some s' \<Longrightarrow> reachable s'"
| down: "reachable s \<Longrightarrow> mousedown e tgt s = Inr s' \<Longrightarrow> reachable s'"
| move: "reachable s \<Longrightarrow> mousemove mx my v s = Inr s' \<Longrightarrow> reachable s'"
| up: "reachable s \<Longrightarrow> mouseup s = Inr s' \<Longrightarrow> reachable s'"
| update: "reachable s \<Longrightarrow> reachable (updateDisplay nameValue rotationValue checked s)"
| delete: "reachable s \<Longrightarrow> reachable (deleteDisplay s)"
| close: "reachable s \<Longrightarrow> reachable (closePropPanel s)"
| add: "reachable s \<Longrightarrow> reachable (startAddDisplayMode t s)"
| undo: "reachable s \<Longrightarrow> reachable (undo s)"
| redo: "reachable s \<Longrightarrow> reachable (redo s)"
| other: "reachable s \<Longrightarrow> reachable (s\<lparr> displays := ds, selectedCameraId := cam \<rparr>)"

text \<open>
  A mutating gesture takes the editor from \<open>s\<close> to \<open>t\<close> and has called \<^verbatim>\<open>saveState\<close> on \<open>s\<close>
  first: the stacks of \<open>t\<close> are those \<^verbatim>\<open>saveState\<close> leaves. A chain of such gestures
  passes through the listed states.
\<close>

definition pushesSnapshot :: "editor \<Rightarrow> editor \<Rightarrow> bool" where
  "pushesSnapshot s t = (undoStack t = undoStack (saveState s) \<and> redoStack t = [])"

fun gestureChain :: "editor \<Rightarrow> editor list \<Rightarrow> bool" where
  "gestureChain s [] = True"
| "gestureChain s (t # ts) = (pushesSnapshot s t \<and> gestureChain t ts)"

text \<open>Setting the model to each of the given region lists in turn and taking a snapshot of it.\<close>

definition pushSnapshots :: "display list list \<Rightarrow> editor \<Rightarrow> editor" where
  "pushSnapshots dss s = fold (\<lambda>ds s'. saveState (s'\<lparr> displays := ds \<rparr>)) dss s"

text \<open>No region of the list has a \<^verbatim>\<open>NaN\<close> rotation.\<close>

definition numericRotations :: "display list \<Rightarrow> bool" where
  "numericRotations ds = list_all (\<lambda>d. rotation d \<noteq> RotNaN) ds"

text \<open>Two ways a handler can leave the history: untouched, or as \<^verbatim>\<open>saveState\<close> left it.\<close>

definition stacksKept :: "editor \<Rightarrow> editor \<Rightarrow> bool" where
  "stacksKept s t = (undoStack t = undoStack s \<and> redoStack t = redoStack s)"

text \<open>The two stacks together never hold more than the cap.\<close>

definition historyBound :: "editor \<Rightarrow> bool" where
  "historyBound s = (length (undoStack s) + length (redoStack s) \<le> 50)"

text \<open>
  The editor \<open>s\<close> with its region list set to \<open>pre\<close>, then the region \<open>d\<close> carrying the
  corners \<open>cs\<close>, then \<open>post\<close>: the shape of the state while a gesture moves the corners
  of one region.
\<close>

definition withCorners ::
    "editor \<Rightarrow> display list \<Rightarrow> display \<Rightarrow> display list \<Rightarrow> point list \<Rightarrow> editor" where
  "withCorners s pre d post cs = s\<lparr> displays := pre @ d\<lparr> corners := cs \<rparr> # post \<rparr>"

text \<open>
  The editor between a press that hit side \<open>i\<close> of a region and the release: only
  \<^verbatim>\<open>activeSideIndex\<close> is set, and the corners copied at the press include both ends of
  the side.
\<close>

definition sideMode :: "editor \<Rightarrow> nat \<Rightarrow> bool" where
  "sideMode s i =
     (\<not> isRotating s \<and> \<not> isDrawing s \<and> \<not> isDragging s \<and> \<not> isResizing s \<and>
      activeSideIndex s = int i \<and> i < 4 \<and>
      i < length (originalCorners s) \<and> (i + 1) mod 4 < length (originalCorners s))"

text \<open>A corner displaced by a native delta.\<close>

definition shifted :: "point \<Rightarrow> real \<Rightarrow> real \<Rightarrow> point" where
  "shifted c ndx ndy = \<lparr> px = px c + ndx, py = py c + ndy \<rparr>"

text \<open>
  The corners of a region being drawn: corner 0 on the anchor \<open>p\<close>, corner 2 on the
  pointer \<open>q\<close>, corners 1 and 3 completing the rectangle.
\<close>

definition rectCorners :: "point \<Rightarrow> point \<Rightarrow> point list" where
  "rectCorners p q = [p, \<lparr> px = px q, py = py p \<rparr>, q, \<lparr> px = px p, py = py q \<rparr>]"

text \<open>The range the specification gives the \<^verbatim>\<open>rotation\<close> field: an integer from 0 to 359.\<close>

definition rotationInRange :: "rotval \<Rightarrow> bool" where
  "rotationInRange r = (case r of Rot n \<Rightarrow> 0 \<le> n \<and> n < 360 | _ \<Rightarrow> False)"

section \<open>A small session\<close>

text \<open>
  Concrete inputs for the examples below: an image 640 pixels wide shown at its natural
  size in the corner of the container, and the editor after camera \<^verbatim>\<open>cam1\<close> was selected
  and Add Region was clicked once, which creates the region \<open>demoRegion\<close>.
\<close>

definition demoView :: view where
  "demoView =
     \<lparr> mediaLeft = 0, mediaTop = 0, mediaWidth = 640, mediaHeight = 480,
       element = Img 640 640 \<rparr>"

definition demoRegion :: display where
  "demoRegion =
     \<lparr> did = Some (JStr ''disp_1''), dname = Some (JStr ''New Display''),
       camId = Some (JStr ''cam1''),
       corners = [\<lparr> px = 100, py = 100 \<rparr>, \<lparr> px = 400, py = 100 \<rparr>,
                  \<lparr> px = 400, py = 280 \<rparr>, \<lparr> px = 100, py = 280 \<rparr>],
       rotation = Rot 0, enablePerspective = Some (JBool False),
       box_x = Some 100, box_y = Some 100, box_w = Some 300, box_h = Some 180,
       extra = [] \<rparr>"

definition demoEditor :: editor where
  "demoEditor =
     startAddDisplayMode 1 ((initial [])\<lparr> selectedCameraId := Some (JStr ''cam1'') \<rparr>)"

section \<open>Coordinate round trip\<close>

text \<open>
  Claim C6. For every offset, every non-zero scale and every native point \<open>p\<close>, mapping
  \<open>p\<close> to the rendered surface and back returns \<open>p\<close> exactly, over exact arithmetic.
\<close>

theorem toNative_toRendered:
  "scale \<noteq> 0 \<Longrightarrow> toNative offsetX offsetY scale (toRendered offsetX offsetY scale p) = p"
  by (simp add: toNative_def toRendered_def)

theorem toNative_toRendered_witness:
  "(1 / 2 :: real) \<noteq> 0 \<and>
   toNative 30 12 (1 / 2) (toRendered 30 12 (1 / 2) \<lparr> px = 100, py = 280 \<rparr>)
     = \<lparr> px = 100, py = 280 \<rparr>"
  using toNative_toRendered [of "1 / 2" 30 12 "\<lparr> px = 100, py = 280 \<rparr>"] by simp

section \<open>Rotation about the centroid\<close>

lemma pdist_rotatePoint:
  "pdist (rotatePoint p c a) (rotatePoint q c a) = pdist p q"
proof -
  define s where "s = sin (a * pi / 180)"
  define k where "k = cos (a * pi / 180)"
  have sk: "s\<^sup>2 + k\<^sup>2 = 1" unfolding s_def k_def by simp
  define u where "u = px p - px q"
  define w where "w = py p - py q"
  have "(u * k - w * s)\<^sup>2 + (u * s + w * k)\<^sup>2 = (u\<^sup>2 + w\<^sup>2) * (s\<^sup>2 + k\<^sup>2)"
    by (simp add: power2_eq_square algebra_simps)
  then have e: "(u * k - w * s)\<^sup>2 + (u * s + w * k)\<^sup>2 = u\<^sup>2 + w\<^sup>2" using sk by simp
  have x: "px (rotatePoint p c a) - px (rotatePoint q c a) = u * k - w * s"
    by (simp add: rotatePoint_def Let_def s_def k_def u_def w_def algebra_simps)
  have y: "py (rotatePoint p c a) - py (rotatePoint q c a) = u * s + w * k"
    by (simp add: rotatePoint_def Let_def s_def k_def u_def w_def algebra_simps)
  show ?thesis unfolding pdist_def x y using e by (simp add: u_def w_def)
qed

lemma getPolyCenter_rotatePoints:
  assumes "length poly = 4"
  shows "getPolyCenter (rotatePoints poly (getPolyCenter poly) a) = getPolyCenter poly"
proof -
  obtain p0 p1 p2 p3 where poly: "poly = [p0, p1, p2, p3]"
    using assms by (auto simp: length_Suc_conv numeral_eq_Suc)
  show ?thesis
    unfolding poly
    by (simp add: getPolyCenter_def rotatePoints_def rotatePoint_def Let_def algebra_simps)
qed

text \<open>
  Claim C4. Rotating the four corners of a quadrilateral about their centroid, by any
  angle, keeps every distance between two corners and keeps the centroid.
\<close>

theorem rotatePoints_preserves_shape:
  assumes "length poly = 4"
  shows "(\<forall>i<4. \<forall>j<4.
            pdist (rotatePoints poly (getPolyCenter poly) \<theta> ! i)
                  (rotatePoints poly (getPolyCenter poly) \<theta> ! j)
              = pdist (poly ! i) (poly ! j)) \<and>
         getPolyCenter (rotatePoints poly (getPolyCenter poly) \<theta>) = getPolyCenter poly"
  using assms
  by (simp add: getPolyCenter_rotatePoints) (simp add: rotatePoints_def pdist_rotatePoint)

theorem rotatePoints_preserves_shape_witness:
  "length [\<lparr> px = 100, py = 100 \<rparr>, \<lparr> px = 400, py = 100 \<rparr>,
           \<lparr> px = 400, py = 280 \<rparr>, \<lparr> px = 100, py = 280 \<rparr>] = 4 \<and>
   getPolyCenter
     (rotatePoints [\<lparr> px = 100, py = 100 \<rparr>, \<lparr> px = 400, py = 100 \<rparr>,
                    \<lparr> px = 400, py = 280 \<rparr>, \<lparr> px = 100, py = 280 \<rparr>]
        (getPolyCenter [\<lparr> px = 100, py = 100 \<rparr>, \<lparr> px = 400, py = 100 \<rparr>,
                        \<lparr> px = 400, py = 280 \<rparr>, \<lparr> px = 100, py = 280 \<rparr>]) 90)
     = getPolyCenter [\<lparr> px = 100, py = 100 \<rparr>, \<lparr> px = 400, py = 100 \<rparr>,
                      \<lparr> px = 400, py = 280 \<rparr>, \<lparr> px = 100, py = 280 \<rparr>]"
proof -
  have len: "length [\<lparr> px = 100::real, py = 100::real \<rparr>, \<lparr> px = 400, py = 100 \<rparr>,
           \<lparr> px = 400, py = 280 \<rparr>, \<lparr> px = 100, py = 280 \<rparr>] = 4" by simp
  from rotatePoints_preserves_shape [OF len, of 90] len show ?thesis by blast
qed

section \<open>The even-odd test\<close>

lemma fold_parity:
  "fold (\<lambda>i (j, c). (i, if P i j then \<not> c else c)) [0..<k] (n, c0) =
     ((if k = 0 then n else k - 1),
      (c0 \<noteq> odd (length (filter (\<lambda>i. P i (if i = 0 then n else i - 1)) [0..<k]))))"
proof (induction k)
  case 0
  then show ?case by simp
next
  case (Suc k)
  then show ?case by (cases k) auto
qed

lemma isPointInPoly_parity:
  "isPointInPoly pt poly =
     odd (length (filter (\<lambda>i. crosses pt (poly ! i)
                              (poly ! (if i = 0 then length poly - 1 else i - 1)))
                   [0..<length poly]))"
  unfolding isPointInPoly_def
  by (simp add: fold_parity [where P = "\<lambda>i j. crosses pt (poly ! i) (poly ! j)"])

lemma square_centre:
  "isPointInPoly \<lparr> px = 5, py = 5 \<rparr>
     [\<lparr> px = 0, py = 0 \<rparr>, \<lparr> px = 10, py = 0 \<rparr>, \<lparr> px = 10, py = 10 \<rparr>, \<lparr> px = 0, py = 10 \<rparr>]"
  by (simp add: isPointInPoly_def crosses_def upt_rec)

lemma square_outside:
  "\<not> isPointInPoly \<lparr> px = 15, py = 15 \<rparr>
     [\<lparr> px = 0, py = 0 \<rparr>, \<lparr> px = 10, py = 0 \<rparr>, \<lparr> px = 10, py = 10 \<rparr>, \<lparr> px = 0, py = 10 \<rparr>]"
  by (simp add: isPointInPoly_def crosses_def upt_rec)

lemma square_vertices:
  "map (\<lambda>v. isPointInPoly v
          [\<lparr> px = 0, py = 0 \<rparr>, \<lparr> px = 10, py = 0 \<rparr>, \<lparr> px = 10, py = 10 \<rparr>, \<lparr> px = 0, py = 10 \<rparr>])
     [\<lparr> px = 0, py = 0 \<rparr>, \<lparr> px = 10, py = 0 \<rparr>, \<lparr> px = 10, py = 10 \<rparr>, \<lparr> px = 0, py = 10 \<rparr>]
   = [True, False, False, False]"
  by (simp add: isPointInPoly_def crosses_def upt_rec)

text \<open>
  Claim C9. On the square with corners (0,0), (10,0), (10,10), (0,10) the test puts
  (5,5) inside and (15,15) outside. Its answer is a function of the point and the polygon
  alone: the parity of the number of edges, each taken with its predecessor corner, that
  the ray from the point crosses. A point on a vertex gets a definite answer too: of the
  four vertices of the square, (0,0) counts as inside and the other three as outside.
\<close>

theorem isPointInPoly_even_odd:
  "isPointInPoly \<lparr> px = 5, py = 5 \<rparr>
     [\<lparr> px = 0, py = 0 \<rparr>, \<lparr> px = 10, py = 0 \<rparr>, \<lparr> px = 10, py = 10 \<rparr>, \<lparr> px = 0, py = 10 \<rparr>] \<and>
   \<not> isPointInPoly \<lparr> px = 15, py = 15 \<rparr>
     [\<lparr> px = 0, py = 0 \<rparr>, \<lparr> px = 10, py = 0 \<rparr>, \<lparr> px = 10, py = 10 \<rparr>, \<lparr> px = 0, py = 10 \<rparr>] \<and>
   map (\<lambda>v. isPointInPoly v
          [\<lparr> px = 0, py = 0 \<rparr>, \<lparr> px = 10, py = 0 \<rparr>, \<lparr> px = 10, py = 10 \<rparr>, \<lparr> px = 0, py = 10 \<rparr>])
     [\<lparr> px = 0, py = 0 \<rparr>, \<lparr> px = 10, py = 0 \<rparr>, \<lparr> px = 10, py = 10 \<rparr>, \<lparr> px = 0, py = 10 \<rparr>]
     = [True, False, False, False] \<and>
   isPointInPoly pt poly =
     odd (length (filter (\<lambda>i. crosses pt (poly ! i)
                              (poly ! (if i = 0 then length poly - 1 else i - 1)))
                   [0..<length poly]))"
  using square_centre square_outside square_vertices isPointInPoly_parity by blast

section \<open>History\<close>

lemma saveState_undoStack:
  "undoStack (saveState s) =
     (if length (undoStack s) < 50 then undoStack s @ [clone (displays s)]
      else tl (undoStack s) @ [clone (displays s)])"
  by (cases "undoStack s") (auto simp: saveState_def Let_def)

lemma saveState_redoStack: "redoStack (saveState s) = []"
  by (simp add: saveState_def Let_def)

lemma saveState_displays: "displays (saveState s) = displays s"
  by (simp add: saveState_def Let_def)

lemma saveState_fields:
  "selectedCameraId (saveState s) = selectedCameraId s"
  "activeDisplayId (saveState s) = activeDisplayId s"
  "isDragging (saveState s) = isDragging s"
  "isResizing (saveState s) = isResizing s"
  "isDrawing (saveState s) = isDrawing s"
  "isRotating (saveState s) = isRotating s"
  "activeSideIndex (saveState s) = activeSideIndex s"
  "activeCornerIndex (saveState s) = activeCornerIndex s"
  "drawingDisplayId (saveState s) = drawingDisplayId s"
  by (simp_all add: saveState_def Let_def)

lemma press_pushes:
  "pushesSnapshot s (pressCorner e d i s)"
  "pushesSnapshot s (pressRotate e ox oy k d s)"
  "pushesSnapshot s (pressSide e d i s)"
  "pushesSnapshot s (pressInside e d s)"
  by (simp_all add: pushesSnapshot_def pressCorner_def pressRotate_def pressSide_def
        pressInside_def Let_def saveState_redoStack)

lemma hitDisplay_cases:
  assumes "hitDisplay e ox oy k d s = Inr (Some s')"
  shows "(\<exists>i. s' = pressCorner e d i s) \<or> s' = pressRotate e ox oy k d s \<or>
         (\<exists>r. sideLoop ox oy k \<lparr> px = mouseX e, py = mouseY e \<rparr> (corners d) [0, 1, 2, 3] = Inr r \<and>
              r \<noteq> - 1 \<and> s' = pressSide e d r s) \<or>
         s' = pressInside e d s"
  using assms unfolding hitDisplay_def
  by (auto simp: Let_def split: if_splits list.splits sum.splits)

lemma hitDisplay_pushes:
  "hitDisplay e ox oy k d s = Inr (Some s') \<Longrightarrow> pushesSnapshot s s'"
  using hitDisplay_cases press_pushes by metis

lemma hitLoop_hit:
  "hitLoop e ox oy k ds s = Inr (Some s') \<Longrightarrow>
     \<exists>d \<in> set ds. hitDisplay e ox oy k d s = Inr (Some s')"
  by (induction ds) (auto split: sum.splits option.splits)

lemma startDrawing_pushes: "pushesSnapshot s (startDrawing e ox oy k s)"
  by (simp add: startDrawing_def pushesSnapshot_def Let_def saveState_redoStack)

lemma mousedown_stacks:
  "mousedown e tgt s = Inr s' \<Longrightarrow> stacksKept s s' \<or> pushesSnapshot s s'"
  unfolding mousedown_def
  by (auto simp: Let_def stacksKept_def startDrawing_pushes
           split: option.splits if_splits sum.splits
           dest!: hitLoop_hit hitDisplay_pushes)

lemma mousemove_stacks: "mousemove mx my v s = Inr s' \<Longrightarrow> stacksKept s s'"
  unfolding mousemove_def stacksKept_def
  by (auto split: if_splits option.splits sum.splits)

lemma mouseup_stacks: "mouseup s = Inr s' \<Longrightarrow> stacksKept s s'"
  unfolding mouseup_def stacksKept_def
  by (auto simp: Let_def split: if_splits option.splits sum.splits list.splits)

lemma updateDisplay_stacks:
  "stacksKept s (updateDisplay n r p s) \<or> pushesSnapshot s (updateDisplay n r p s)"
  unfolding updateDisplay_def stacksKept_def pushesSnapshot_def
  by (auto simp: Let_def saveState_redoStack split: option.splits)

lemma deleteDisplay_pushes: "pushesSnapshot s (deleteDisplay s)"
  by (simp add: deleteDisplay_def pushesSnapshot_def Let_def saveState_redoStack)

lemma startAddDisplayMode_pushes: "pushesSnapshot s (startAddDisplayMode t s)"
  by (simp add: startAddDisplayMode_def pushesSnapshot_def Let_def saveState_redoStack)

lemma loadConfig_stacks: "loadConfig data s = Some s' \<Longrightarrow> stacksKept s s'"
  by (auto simp: loadConfig_def stacksKept_def split: sum.splits loaded.splits)

lemma historyBound_kept: "historyBound s \<Longrightarrow> stacksKept s t \<Longrightarrow> historyBound t"
  by (simp add: historyBound_def stacksKept_def)

lemma historyBound_pushes: "historyBound s \<Longrightarrow> pushesSnapshot s t \<Longrightarrow> historyBound t"
  by (auto simp: historyBound_def pushesSnapshot_def saveState_undoStack)

lemma historyBound_undo: "historyBound s \<Longrightarrow> historyBound (undo s)"
  by (cases "undoStack s" rule: rev_cases) (auto simp: historyBound_def undo_def)

lemma historyBound_redo: "historyBound s \<Longrightarrow> historyBound (redo s)"
  by (cases "redoStack s" rule: rev_cases) (auto simp: historyBound_def redo_def)

lemma reachable_historyBound: "reachable s \<Longrightarrow> historyBound s"
proof (induction rule: reachable.induct)
  case start
  show ?case by (simp add: historyBound_def initial_def)
next
  case (load s data s')
  then show ?case using historyBound_kept loadConfig_stacks by blast
next
  case (down s e tgt s')
  then show ?case using mousedown_stacks historyBound_kept historyBound_pushes by blast
next
  case (move s mx my v s')
  then show ?case using mousemove_stacks historyBound_kept by blast
next
  case (up s s')
  then show ?case using mouseup_stacks historyBound_kept by blast
next
  case (update s n r c)
  then show ?case using updateDisplay_stacks historyBound_kept historyBound_pushes by blast
next
  case (delete s)
  then show ?case using deleteDisplay_pushes historyBound_pushes by blast
next
  case (close s)
  then show ?case by (simp add: historyBound_def closePropPanel_def)
next
  case (add s t)
  then show ?case using startAddDisplayMode_pushes historyBound_pushes by blast
next
  case (undo s)
  then show ?case by (simp add: historyBound_undo)
next
  case (redo s)
  then show ?case by (simp add: historyBound_redo)
next
  case (other s ds cam)
  then show ?case by (simp add: historyBound_def)
qed

lemma pushSnapshots_undoStack:
  "length (undoStack s) \<le> 50 \<Longrightarrow>
     undoStack (pushSnapshots dss s) =
       drop (length (undoStack s @ map clone dss) - 50) (undoStack s @ map clone dss)"
proof (induction dss arbitrary: s)
  case Nil
  then show ?case by (simp add: pushSnapshots_def)
next
  case (Cons ds dss)
  let ?s1 = "saveState (s\<lparr> displays := ds \<rparr>)"
  have step: "pushSnapshots (ds # dss) s = pushSnapshots dss ?s1"
    by (simp add: pushSnapshots_def)
  show ?case
  proof (cases "length (undoStack s) < 50")
    case True
    then have u1: "undoStack ?s1 = undoStack s @ [clone ds]"
      by (simp add: saveState_undoStack)
    then have "length (undoStack ?s1) \<le> 50" using True by simp
    from Cons.IH [OF this] show ?thesis unfolding step u1 by simp
  next
    case False
    with Cons.prems have len: "length (undoStack s) = 50" by simp
    then obtain u us where u: "undoStack s = u # us" by (cases "undoStack s") auto
    have u1: "undoStack ?s1 = us @ [clone ds]"
      using len by (simp add: saveState_undoStack u)
    have "length (undoStack ?s1) \<le> 50" using len u u1 by simp
    from Cons.IH [OF this] show ?thesis
      unfolding step u1 u using len u by (simp add: Suc_diff_le)
  qed
qed

text \<open>
  Claim C3. In every state the editor can reach, the undo stack holds at most 50
  snapshots, and it still does after \<^verbatim>\<open>undo\<close>, \<^verbatim>\<open>redo\<close> or \<^verbatim>\<open>saveState\<close>. \<^verbatim>\<open>saveState\<close> appends
  the snapshot, drops the oldest entry once the stack is full, and empties the redo
  stack. Pushing 60 snapshots onto fresh stacks leaves the last 50 of them, in order.
\<close>

theorem undoStack_capped:
  "(reachable s \<longrightarrow>
      length (undoStack s) \<le> 50 \<and> length (undoStack (undo s)) \<le> 50 \<and>
      length (undoStack (redo s)) \<le> 50 \<and> length (undoStack (saveState s)) \<le> 50) \<and>
   undoStack (saveState s') =
     (if length (undoStack s') < 50 then undoStack s' @ [clone (displays s')]
      else tl (undoStack s') @ [clone (displays s')]) \<and>
   redoStack (saveState s') = [] \<and>
   (length dss = 60 \<longrightarrow>
      undoStack (pushSnapshots dss (initial ds0)) = map clone (drop 10 dss))"
proof -
  have a: "length (undoStack t) \<le> 50" if "reachable t" for t
    using reachable_historyBound [OF that] by (simp add: historyBound_def)
  have b: "length (undoStack (saveState t)) \<le> 50" if "reachable t" for t
    using a [OF that] by (simp add: saveState_undoStack)
  have c: "undoStack (pushSnapshots dss (initial ds0)) = map clone (drop 10 dss)"
    if "length dss = 60"
    using pushSnapshots_undoStack [of "initial ds0" dss] that
    by (simp add: initial_def drop_map)
  show ?thesis
    using a b c reachable.undo reachable.redo saveState_undoStack saveState_redoStack
    by blast
qed

theorem undoStack_capped_witness:
  "reachable (redo (undo (startAddDisplayMode 1 (initial [])))) \<and>
   length (replicate 60 ([] :: display list)) = 60 \<and>
   length (undoStack (redo (redo (undo (startAddDisplayMode 1 (initial [])))))) \<le> 50 \<and>
   undoStack (pushSnapshots (replicate 60 []) (initial [])) = map clone (drop 10 (replicate 60 []))"
proof -
  have r: "reachable (redo (undo (startAddDisplayMode 1 (initial []))))"
    by (intro reachable.redo reachable.undo reachable.add reachable.start)
  have l: "length (replicate 60 ([] :: display list)) = 60" by simp
  from undoStack_capped [of "redo (undo (startAddDisplayMode 1 (initial [])))" _
      "replicate 60 []" "[]"] r l
  show ?thesis by blast
qed

text \<open>
  Claim C10. With no camera selected, Add Region leaves the region list as it is, yet it
  has taken a snapshot first: the undo stack has received a copy of the list (losing its
  oldest entry if it was full) and the redo stack is empty.
\<close>

theorem startAddDisplayMode_without_camera:
  assumes "\<not> truthy (selectedCameraId s)"
  shows "displays (startAddDisplayMode t s) = displays s \<and>
         undoStack (startAddDisplayMode t s) =
           (if length (undoStack s) < 50 then undoStack s @ [clone (displays s)]
            else tl (undoStack s) @ [clone (displays s)]) \<and>
         redoStack (startAddDisplayMode t s) = [] \<and>
         startAddDisplayMode t s = saveState s"
proof -
  have "startAddDisplayMode t s = saveState s"
    using assms by (simp add: startAddDisplayMode_def Let_def saveState_fields)
  then show ?thesis
    by (simp add: saveState_undoStack saveState_redoStack saveState_displays)
qed

theorem startAddDisplayMode_without_camera_witness:
  "\<not> truthy (selectedCameraId (initial [])) \<and>
   displays (startAddDisplayMode 7 (initial [])) = [] \<and>
   undoStack (startAddDisplayMode 7 (initial [])) = [[]] \<and>
   redoStack (startAddDisplayMode 7 (initial [])) = []"
proof -
  have h: "\<not> truthy (selectedCameraId (initial []))" by (simp add: initial_def)
  have e: "displays (initial []) = []" "undoStack (initial []) = []"
    by (simp_all add: initial_def)
  from startAddDisplayMode_without_camera [OF h, of 7]
  have "displays (startAddDisplayMode 7 (initial [])) = displays (initial []) \<and>
        undoStack (startAddDisplayMode 7 (initial [])) =
          (if length (undoStack (initial [])) < 50
           then undoStack (initial []) @ [clone (displays (initial []))]
           else tl (undoStack (initial [])) @ [clone (displays (initial []))]) \<and>
        redoStack (startAddDisplayMode 7 (initial [])) = []"
    by blast
  then show ?thesis using h unfolding e by (simp add: clone_def)
qed

section \<open>Undo and redo\<close>

lemma clone_numeric: "numericRotations ds \<Longrightarrow> clone ds = ds"
  by (induction ds) (auto simp: clone_def clone_display_def numericRotations_def split: rotval.splits)

lemma gestureChain_snoc:
  "gestureChain s (ts @ [t]) = (gestureChain s ts \<and> pushesSnapshot (last (s # ts)) t)"
  by (induction ts arbitrary: s) auto

lemma gestureChain_undoStack:
  "gestureChain s ts \<Longrightarrow> length ts \<le> 50 \<Longrightarrow>
     \<exists>pre. undoStack (last (s # ts)) = pre @ map (\<lambda>u. clone (displays u)) (butlast (s # ts))"
proof (induction ts rule: rev_induct)
  case Nil
  then show ?case by simp
next
  case (snoc t ts)
  let ?l = "last (s # ts)"
  let ?cs = "map (\<lambda>u. clone (displays u)) (butlast (s # ts))"
  from snoc.prems have ch: "gestureChain s ts" and push: "pushesSnapshot ?l t"
    and len: "length ts < 50"
    by (simp_all add: gestureChain_snoc)
  from snoc.IH [OF ch] len obtain pre where pre: "undoStack ?l = pre @ ?cs" by auto
  have lcs: "length ?cs = length ts" by simp
  have bl: "butlast (s # ts @ [t]) = butlast (s # ts) @ [?l]"
    by (metis append_Cons append_butlast_last_id butlast_snoc list.distinct(1))
  have ut: "undoStack t =
      (if length (undoStack ?l) < 50 then undoStack ?l @ [clone (displays ?l)]
       else tl (undoStack ?l) @ [clone (displays ?l)])"
    using push by (simp add: pushesSnapshot_def saveState_undoStack)
  show ?case
  proof (cases "length (undoStack ?l) < 50")
    case True
    then have "undoStack t = pre @ (?cs @ [clone (displays ?l)])" using ut pre by simp
    then show ?thesis unfolding bl by (metis (no_types, lifting) last_snoc append_Cons map_append list.simps(8,9))
  next
    case False
    then have "pre \<noteq> []" using pre lcs len by auto
    then have "tl (undoStack ?l) = tl pre @ ?cs" using pre by simp
    then have "undoStack t = tl pre @ (?cs @ [clone (displays ?l)])" using ut False by simp
    then show ?thesis unfolding bl by (metis (no_types, lifting) last_snoc append_Cons map_append list.simps(8,9))
  qed
qed

lemma gestureChain_redoStack:
  "gestureChain s ts \<Longrightarrow> ts \<noteq> [] \<Longrightarrow> redoStack (last (s # ts)) = []"
  by (induction ts arbitrary: s) (auto simp: pushesSnapshot_def)

lemma undo_many:
  "undoStack s = pre @ cs \<Longrightarrow> cs \<noteq> [] \<Longrightarrow>
     displays ((undo ^^ length cs) s) = hd cs \<and>
     undoStack ((undo ^^ length cs) s) = pre \<and>
     redoStack ((undo ^^ length cs) s) =
       redoStack s @ clone (displays s) # rev (map clone (tl cs))"
proof (induction cs arbitrary: s rule: rev_induct)
  case Nil
  then show ?case by simp
next
  case (snoc c cs)
  have u: "displays (undo s) = c" "undoStack (undo s) = pre @ cs"
    "redoStack (undo s) = redoStack s @ [clone (displays s)]"
    using snoc.prems by (simp_all add: undo_def butlast_append)
  show ?case
  proof (cases "cs = []")
    case True
    then show ?thesis using u by simp
  next
    case False
    from snoc.IH [OF u(2) False] show ?thesis
      using False by (simp add: funpow_swap1 u)
  qed
qed

lemma redo_many:
  "redoStack s = pre @ rs \<Longrightarrow> rs \<noteq> [] \<Longrightarrow>
     displays ((redo ^^ length rs) s) = hd rs"
proof (induction rs arbitrary: s rule: rev_induct)
  case Nil
  then show ?case by simp
next
  case (snoc r rs)
  have u: "displays (redo s) = r" "redoStack (redo s) = pre @ rs"
    using snoc.prems by (simp_all add: redo_def butlast_append)
  show ?case
  proof (cases "rs = []")
    case True
    then show ?thesis using u by simp
  next
    case False
    from snoc.IH [OF u(2) False] show ?thesis
      using False by (simp add: funpow_swap1)
  qed
qed

lemma undo_redo_snapshots:
  assumes ch: "gestureChain s ts" and ne: "ts \<noteq> []" and len: "length ts \<le> 50"
  shows "displays ((undo ^^ length ts) (last (s # ts))) = clone (displays s) \<and>
         displays ((redo ^^ length ts) ((undo ^^ length ts) (last (s # ts))))
           = clone (displays (last (s # ts)))"
proof -
  let ?l = "last (s # ts)"
  let ?cs = "map (\<lambda>u. clone (displays u)) (butlast (s # ts))"
  from gestureChain_undoStack [OF ch len] obtain pre where pre: "undoStack ?l = pre @ ?cs"
    by auto
  have lcs: "length ?cs = length ts" by simp
  have cne: "?cs \<noteq> []" using ne by (cases ts) auto
  have hd: "hd ?cs = clone (displays s)" using ne by (cases ts) auto
  from undo_many [OF pre cne]
  have d: "displays ((undo ^^ length ts) ?l) = clone (displays s)"
    and r: "redoStack ((undo ^^ length ts) ?l) =
              redoStack ?l @ clone (displays ?l) # rev (map clone (tl ?cs))"
    unfolding lcs hd by simp_all
  let ?rs = "clone (displays ?l) # rev (map clone (tl ?cs))"
  have r': "redoStack ((undo ^^ length ts) ?l) = [] @ ?rs"
    using r gestureChain_redoStack [OF ch ne] by simp
  have lrs: "length ?rs = length ts" using ne by (cases ts) auto
  from redo_many [OF r'] have "displays ((redo ^^ length ?rs) ((undo ^^ length ts) ?l)) = hd ?rs"
    by simp
  then show ?thesis using d unfolding lrs by simp
qed



lemma gestureChain_bound:
  "gestureChain s ts \<Longrightarrow> length (undoStack s) \<le> 50 \<Longrightarrow>
     length (undoStack (last (s # ts))) \<le> 50"
proof (induction ts arbitrary: s)
  case Nil
  then show ?case by simp
next
  case (Cons t ts)
  then have "length (undoStack t) \<le> 50"
    by (auto simp: pushesSnapshot_def saveState_undoStack)
  with Cons show ?case by simp
qed

lemma undo_beyond_cap:
  assumes ch: "gestureChain t ts" and len: "length ts = 50"
    and bound: "length (undoStack (last (t # ts))) \<le> 50"
  shows "displays ((undo ^^ 51) (last (t # ts))) = clone (displays t)"
proof -
  let ?l = "last (t # ts)"
  let ?cs = "map (\<lambda>u. clone (displays u)) (butlast (t # ts))"
  from gestureChain_undoStack [OF ch] len obtain pre where pre: "undoStack ?l = pre @ ?cs"
    by auto
  have tne: "ts \<noteq> []" using len by auto
  have lcs: "length ?cs = 50" using len tne by simp
  have cne: "?cs \<noteq> []" using tne by (cases ts) auto
  have "pre = []" using bound lcs unfolding pre by simp
  have hd: "hd ?cs = clone (displays t)" using len by (cases ts) auto
  from undo_many [OF pre cne]
  have d: "displays ((undo ^^ 50) ?l) = clone (displays t)"
    and u: "undoStack ((undo ^^ 50) ?l) = []"
    unfolding lcs hd using \<open>pre = []\<close> by simp_all
  have "(undo ^^ 51) ?l = undo ((undo ^^ 50) ?l)"
    by (simp add: eval_nat_numeral)
  also have "\<dots> = (undo ^^ 50) ?l" using u by (simp add: undo_def)
  finally show ?thesis using d by simp
qed

lemma iterate_gestureChain:
  assumes step: "\<And>s. Q s \<Longrightarrow> pushesSnapshot s (f s) \<and> Q (f s)" and "Q s"
  shows "gestureChain s (map (\<lambda>k. (f ^^ Suc k) s) [0..<n]) \<and>
         last (s # map (\<lambda>k. (f ^^ Suc k) s) [0..<n]) = (f ^^ n) s \<and> Q ((f ^^ n) s)"
proof (induction n)
  case 0
  then show ?case using assms(2) by simp
next
  case (Suc n)
  then show ?case using step [of "(f ^^ n) s"] by (simp add: gestureChain_snoc)
qed

lemma parseInt_str_0: "parseInt_str ''0'' = Some 0"
  by (simp add: parseInt_str_def strip_sign_def is_ws_def is_digit_def numeral_val_def
        digit_val_def)

lemma updateDisplay_single:
  "displays s = [d] \<Longrightarrow> did d = activeDisplayId s \<Longrightarrow>
     updateDisplay ''A'' ''0'' False s =
       (saveState s)\<lparr> displays :=
          [d\<lparr> dname := Some (JStr ''A''), rotation := Rot 0,
               enablePerspective := Some (JBool False) \<rparr>] \<rparr>"
  by (simp add: updateDisplay_def Let_def parseInt_str_0 saveState_def)

lemma updateDisplay_single_step:
  assumes "\<exists>d. displays s = [d] \<and> did d = activeDisplayId s"
  shows "pushesSnapshot s (updateDisplay ''A'' ''0'' False s) \<and>
         (\<exists>d. displays (updateDisplay ''A'' ''0'' False s) = [d] \<and>
              did d = activeDisplayId (updateDisplay ''A'' ''0'' False s))"
proof -
  from assms obtain d where d: "displays s = [d]" "did d = activeDisplayId s" by blast
  show ?thesis
    unfolding updateDisplay_single [OF d]
    by (simp add: pushesSnapshot_def saveState_redoStack saveState_fields d(2))
qed

text \<open>
  A session for the example below: in the editor with one region, Update with the name
  \<^verbatim>\<open>Cluster\<close>, the rotation \<^verbatim>\<open>90\<close> and the checkbox set, then Add Region.
\<close>

lemma parseInt_str_90: "parseInt_str ''90'' = Some 90"
  by (simp add: parseInt_str_def strip_sign_def is_ws_def is_digit_def numeral_val_def
        digit_val_def)

lemma updateDisplay_pushes:
  "find (\<lambda>x. did x = activeDisplayId s) (displays s) = Some d \<Longrightarrow>
     pushesSnapshot s (updateDisplay nameValue rotationValue perspectiveChecked s)"
  by (simp add: updateDisplay_def Let_def pushesSnapshot_def saveState_redoStack)

lemma demoEditor_displays: "displays demoEditor = [demoRegion]"
  by (simp add: demoEditor_def demoRegion_def startAddDisplayMode_def initial_def
        saveState_def Let_def clone_def newId_def)

lemma demoEditor_active: "activeDisplayId demoEditor = did demoRegion"
  by (simp add: demoEditor_def demoRegion_def startAddDisplayMode_def initial_def
        saveState_def Let_def clone_def newId_def)

lemma demoEditor_camera: "selectedCameraId demoEditor = Some (JStr ''cam1'')"
  by (simp add: demoEditor_def demoRegion_def startAddDisplayMode_def initial_def
        saveState_def Let_def clone_def newId_def)

lemma updateDisplay_demoEditor:
  "displays (updateDisplay ''Cluster'' ''90'' True demoEditor) =
     [demoRegion\<lparr> dname := Some (JStr ''Cluster''), rotation := Rot 90,
                  enablePerspective := Some (JBool True) \<rparr>]"
  "selectedCameraId (updateDisplay ''Cluster'' ''90'' True demoEditor) = Some (JStr ''cam1'')"
  by (simp_all add: updateDisplay_def demoEditor_displays demoEditor_active Let_def
        parseInt_str_90 saveState_displays saveState_fields demoEditor_camera)

lemma startAddDisplayMode_displays:
  "truthy (selectedCameraId s) \<Longrightarrow>
     displays (startAddDisplayMode t s) =
       displays s @
       [\<lparr> did = newId t, dname = Some (JStr ''New Display''), camId = selectedCameraId s,
          corners = [\<lparr> px = 100, py = 100 \<rparr>, \<lparr> px = 400, py = 100 \<rparr>,
                     \<lparr> px = 400, py = 280 \<rparr>, \<lparr> px = 100, py = 280 \<rparr>],
          rotation = Rot 0, enablePerspective = Some (JBool False),
          box_x = Some 100, box_y = Some 100, box_w = Some 300, box_h = Some 180,
          extra = [] \<rparr>]"
  by (simp add: startAddDisplayMode_def Let_def saveState_displays saveState_fields)

text \<open>
  Claim C2 as first stated fails in two ways. The stack keeps 50 snapshots: after 51
  clicks on Update, 51 calls of \<^verbatim>\<open>undo\<close> end at the list the first click left, not at
  the list before it. And a snapshot is a JSON copy, in which a \<^verbatim>\<open>NaN\<close> rotation (from
  an empty rotation field) has become \<^verbatim>\<open>null\<close>.
\<close>

theorem undo_redo_symmetry_counterexample:
  "displays ((undo ^^ 51) ((updateDisplay ''A'' ''0'' False ^^ 51)
      (startAddDisplayMode 1 ((initial [])\<lparr> selectedCameraId := Some (JStr ''cam1'') \<rparr>))))
     \<noteq> displays
      (startAddDisplayMode 1 ((initial [])\<lparr> selectedCameraId := Some (JStr ''cam1'') \<rparr>)) \<and>
   displays (undo (updateDisplay ''B'' ''5'' False (updateDisplay ''A'' [] False
      (startAddDisplayMode 1 ((initial [])\<lparr> selectedCameraId := Some (JStr ''cam1'') \<rparr>)))))
     \<noteq> displays (updateDisplay ''A'' [] False
      (startAddDisplayMode 1 ((initial [])\<lparr> selectedCameraId := Some (JStr ''cam1'') \<rparr>)))"
proof
  let ?f = "updateDisplay ''A'' ''0'' False"
  let ?s0 = "startAddDisplayMode 1 ((initial [])\<lparr> selectedCameraId := Some (JStr ''cam1'') \<rparr>)"
  let ?Q = "\<lambda>s. \<exists>d. displays s = [d] \<and> did d = activeDisplayId s"
  let ?t = "?f ?s0"
  let ?ts = "map (\<lambda>k. (?f ^^ Suc k) ?t) [0..<50]"
  have q0: "?Q ?s0"
    by (simp add: startAddDisplayMode_def initial_def saveState_def Let_def)
  have u0: "length (undoStack ?s0) \<le> 50"
    by (simp add: startAddDisplayMode_def initial_def saveState_def Let_def)
  from updateDisplay_single_step [OF q0]
  have p1: "pushesSnapshot ?s0 ?t" and q1: "?Q ?t" by blast+
  have u1: "length (undoStack ?t) \<le> 50"
    using p1 u0 by (auto simp: pushesSnapshot_def saveState_undoStack)
  from iterate_gestureChain [of ?Q ?f ?t 50, OF updateDisplay_single_step q1]
  have ch: "gestureChain ?t ?ts" and l: "last (?t # ?ts) = (?f ^^ 50) ?t" by blast+
  have l51: "last (?t # ?ts) = (?f ^^ 51) ?s0"
    unfolding l by (simp add: eval_nat_numeral funpow_swap1)
  have b: "length (undoStack (last (?t # ?ts))) \<le> 50"
    by (rule gestureChain_bound [OF ch u1])
  from undo_beyond_cap [OF ch _ b]
  have "displays ((undo ^^ 51) ((?f ^^ 51) ?s0)) = clone (displays ?t)"
    unfolding l51 by simp
  moreover have "clone (displays ?t) \<noteq> displays ?s0"
    by (simp add: updateDisplay_def Let_def parseInt_str_0 startAddDisplayMode_def
          initial_def saveState_def clone_def clone_display_def)
  ultimately show "displays ((undo ^^ 51) ((?f ^^ 51) ?s0)) \<noteq> displays ?s0" by simp
next
  show "displays (undo (updateDisplay ''B'' ''5'' False (updateDisplay ''A'' [] False
      (startAddDisplayMode 1 ((initial [])\<lparr> selectedCameraId := Some (JStr ''cam1'') \<rparr>)))))
     \<noteq> displays (updateDisplay ''A'' [] False
      (startAddDisplayMode 1 ((initial [])\<lparr> selectedCameraId := Some (JStr ''cam1'') \<rparr>)))"
    by (simp add: startAddDisplayMode_def initial_def saveState_def Let_def
        clone_def newId_def updateDisplay_def undo_def clone_display_def parseInt_str_def
        strip_sign_def is_ws_def is_digit_def numeral_val_def digit_val_def)
qed

text \<open>
  Claim C2, as amended. In an editor whose regions and corners are plain objects with finite
  coordinates (the states of type \<open>editor\<close>; the lemmas \<open>loadConfig_array_corners\<close>,
  \<open>loadConfig_array_region\<close> and \<open>loadConfig_infinite_coordinate\<close> below show what a
  configuration must hold to leave them, and there the JSON copy of a snapshot is no longer
  exact): after a chain of at most 50 mutating gestures, each of which took its
  snapshot first, as many calls of \<^verbatim>\<open>undo\<close> bring the region list back to what it was
  before the first gesture, and as many calls of \<^verbatim>\<open>redo\<close> then bring back the list the
  last gesture left, provided neither list holds a \<^verbatim>\<open>NaN\<close> rotation.
\<close>

theorem undo_redo_symmetry:
  assumes "gestureChain s ts" and "length ts \<le> 50"
    and "numericRotations (displays s)"
    and "numericRotations (displays (last (s # ts)))"
  shows "displays ((undo ^^ length ts) (last (s # ts))) = displays s \<and>
         displays ((redo ^^ length ts) ((undo ^^ length ts) (last (s # ts))))
           = displays (last (s # ts))"
proof (cases "ts = []")
  case True
  then show ?thesis by simp
next
  case False
  from undo_redo_snapshots [OF assms(1) False assms(2)] show ?thesis
    unfolding clone_numeric [OF assms(3)] clone_numeric [OF assms(4)] .
qed

theorem undo_redo_symmetry_witness:
  "gestureChain demoEditor
     [updateDisplay ''Cluster'' ''90'' True demoEditor,
      startAddDisplayMode 2 (updateDisplay ''Cluster'' ''90'' True demoEditor)] \<and>
   numericRotations (displays demoEditor) \<and>
   numericRotations
     (displays (startAddDisplayMode 2 (updateDisplay ''Cluster'' ''90'' True demoEditor))) \<and>
   displays demoEditor = [demoRegion] \<and>
   map rotation
     (displays (startAddDisplayMode 2 (updateDisplay ''Cluster'' ''90'' True demoEditor)))
     = [Rot 90, Rot 0] \<and>
   displays ((undo ^^ 2)
     (startAddDisplayMode 2 (updateDisplay ''Cluster'' ''90'' True demoEditor)))
     = displays demoEditor \<and>
   displays ((redo ^^ 2) ((undo ^^ 2)
     (startAddDisplayMode 2 (updateDisplay ''Cluster'' ''90'' True demoEditor))))
     = displays (startAddDisplayMode 2 (updateDisplay ''Cluster'' ''90'' True demoEditor))"
proof -
  let ?s = "demoEditor"
  let ?t1 = "updateDisplay ''Cluster'' ''90'' True ?s"
  let ?t2 = "startAddDisplayMode 2 ?t1"
  have f: "find (\<lambda>x. did x = activeDisplayId ?s) (displays ?s) = Some demoRegion"
    by (simp add: demoEditor_displays demoEditor_active)
  have ch: "gestureChain ?s [?t1, ?t2]"
    by (simp add: updateDisplay_pushes [OF f] startAddDisplayMode_pushes)
  have len: "length [?t1, ?t2] \<le> 50" by simp
  have n0: "numericRotations (displays ?s)"
    by (simp add: numericRotations_def demoEditor_displays demoRegion_def)
  have d2: "map rotation (displays ?t2) = [Rot 90, Rot 0]"
    by (simp add: startAddDisplayMode_displays updateDisplay_demoEditor)
  have "list_all (\<lambda>r. r \<noteq> RotNaN) (map rotation (displays ?t2))"
    unfolding d2 by simp
  then have n2': "numericRotations (displays ?t2)"
    by (simp add: numericRotations_def list_all_iff)
  have lst: "last [?s, ?t1, ?t2] = ?t2" by simp
  from n2' have n2: "numericRotations (displays (last [?s, ?t1, ?t2]))" unfolding lst .
  have two: "length [?t1, ?t2] = 2" by simp
  from undo_redo_symmetry [OF ch len n0 n2] have
    "displays ((undo ^^ 2) ?t2) = displays ?s \<and>
     displays ((redo ^^ 2) ((undo ^^ 2) ?t2)) = displays ?t2"
    unfolding two lst .
  with ch n0 n2' d2 demoEditor_displays show ?thesis by blast
qed

section \<open>Gestures on one region\<close>

lemma find_fresh_prefix:
  "\<forall>x \<in> set pre. \<not> P x \<Longrightarrow> P d \<Longrightarrow> find P (pre @ d # post) = Some d"
  by (induction pre) auto

lemma updateFirst_fresh_prefix:
  "\<forall>x \<in> set pre. \<not> P x \<Longrightarrow> P d \<Longrightarrow> updateFirst P f (pre @ d # post) = pre @ f d # post"
  by (induction pre) auto

lemma moveDisplay_displays:
  "moveDisplay mx my v (s\<lparr> displays := ds \<rparr>) d = moveDisplay mx my v s d"
  by (simp add: moveDisplay_def Let_def)

lemma mousemove_withCorners:
  assumes "\<forall>x \<in> set pre. did x \<noteq> did d" and "activeDisplayId s1 = did d"
    and "\<not> idle s1"
    and "moveDisplay mx my v s1 (d\<lparr> corners := cs \<rparr>) = Inr (d\<lparr> corners := cs' \<rparr>)"
  shows "mousemove mx my v (withCorners s1 pre d post cs) = Inr (withCorners s1 pre d post cs')"
proof -
  let ?P = "\<lambda>x. did x = did d"
  have f: "find ?P (pre @ d\<lparr> corners := cs \<rparr> # post) = Some (d\<lparr> corners := cs \<rparr>)"
    by (rule find_fresh_prefix) (use assms(1) in auto)
  have u: "updateFirst ?P (\<lambda>_. d\<lparr> corners := cs' \<rparr>) (pre @ d\<lparr> corners := cs \<rparr> # post)
             = pre @ d\<lparr> corners := cs' \<rparr> # post"
    by (rule updateFirst_fresh_prefix) (use assms(1) in auto)
  show ?thesis
    using assms(3) unfolding mousemove_def withCorners_def
    by (auto simp: idle_def assms(2) f u moveDisplay_displays assms(4))
qed

lemma point_update_both: "(p :: point)\<lparr> px := a, py := b \<rparr> = \<lparr> px = a, py = b \<rparr>"
  by (cases p) simp

lemma js_rem_succ: "js_rem (int i + 1) 4 = int ((i + 1) mod 4)"
  by (simp add: js_rem_def zmod_int add.commute)

lemma moveDisplay_side:
  assumes "\<not> isRotating s1" "\<not> isDrawing s1" "\<not> isDragging s1" "\<not> isResizing s1"
    and "activeSideIndex s1 = int i"
    and "i < length (originalCorners s1)" "(i + 1) mod 4 < length (originalCorners s1)"
    and "length cs = length (originalCorners s1)"
  shows "moveDisplay mx my v s1 (d\<lparr> corners := cs \<rparr>) =
     Inr (d\<lparr> corners :=
       cs[i := \<lparr> px = px (originalCorners s1 ! i) + (mx - dragStartX s1) / scale_move v,
                 py = py (originalCorners s1 ! i) + (my - dragStartY s1) / scale_move v \<rparr>,
          (i + 1) mod 4 :=
               \<lparr> px = px (originalCorners s1 ! ((i + 1) mod 4)) + (mx - dragStartX s1) / scale_move v,
                 py = py (originalCorners s1 ! ((i + 1) mod 4)) + (my - dragStartY s1) / scale_move v \<rparr>] \<rparr>)"
  using assms
  by (simp add: moveDisplay_def Let_def validIdx_def js_rem_succ point_update_both)


lemma sideLoop_range:
  "sideLoop ox oy k m cs ns = Inr r \<Longrightarrow> r \<noteq> - 1 \<Longrightarrow>
     \<exists>n \<in> set ns. r = int n \<and> n < length cs \<and> (n + 1) mod 4 < length cs"
  by (induction ns) (auto split: if_splits)

lemma press_activeSideIndex:
  "activeSideIndex (pressCorner e d i s) = activeSideIndex s"
  "activeSideIndex (pressRotate e ox oy k d s) = activeSideIndex s"
  "activeSideIndex (pressSide e d r s) = r"
  "activeSideIndex (pressInside e d s) = activeSideIndex s"
  "activeSideIndex (startDrawing e ox oy k s) = activeSideIndex s"
  by (simp_all add: pressCorner_def pressRotate_def pressSide_def pressInside_def
        startDrawing_def Let_def saveState_fields)

lemma press_isDrawing:
  "isDrawing (pressCorner e d i s) = isDrawing s"
  "isDrawing (pressRotate e ox oy k d s) = isDrawing s"
  "isDrawing (pressSide e d r s) = isDrawing s"
  "isDrawing (pressInside e d s) = isDrawing s"
  by (simp_all add: pressCorner_def pressRotate_def pressSide_def pressInside_def
        Let_def saveState_fields)

lemma mousedown_cases:
  assumes "mousedown e tgt s = Inr s1"
  shows "s1 = s \<or>
         (\<exists>v. tgt = Some v \<and> s1 = startDrawing e (mediaLeft v) (mediaTop v) (scale_press v) s) \<or>
         (\<exists>v d. tgt = Some v \<and> d \<in> set (displays s) \<and>
            hitDisplay e (mediaLeft v) (mediaTop v) (scale_press v) d s = Inr (Some s1))"
proof (cases tgt)
  case None
  then show ?thesis using assms by (simp add: mousedown_def)
next
  case (Some v)
  let ?order = "if altKey e then filter (\<lambda>d. camId d = selectedCameraId s) (displays s)
                else rev (filter (\<lambda>d. camId d = selectedCameraId s) (displays s))"
  have sub: "set ?order \<subseteq> set (displays s)" by auto
  show ?thesis
  proof (cases "mouseX e < mediaLeft v \<or> mouseX e > mediaLeft v + mediaWidth v \<or>
                mouseY e < mediaTop v \<or> mouseY e > mediaTop v + mediaHeight v")
    case True
    then show ?thesis using assms Some by (simp add: mousedown_def Let_def)
  next
    case False
    then have md: "mousedown e tgt s =
        (case hitLoop e (mediaLeft v) (mediaTop v) (scale_press v) ?order s of
           Inl err \<Rightarrow> Inl err
         | Inr (Some s') \<Rightarrow> Inr s'
         | Inr None \<Rightarrow> Inr (startDrawing e (mediaLeft v) (mediaTop v) (scale_press v) s))"
      using Some by (simp add: mousedown_def Let_def)
    show ?thesis
    proof (cases "hitLoop e (mediaLeft v) (mediaTop v) (scale_press v) ?order s")
      case (Inl err)
      then show ?thesis using assms md by simp
    next
      case (Inr r)
      show ?thesis
      proof (cases r)
        case None
        then show ?thesis using assms md Inr Some by simp
      next
        case (Some s')
        then have "s' = s1" using assms md Inr by simp
        with hitLoop_hit [of e "mediaLeft v" "mediaTop v" "scale_press v" ?order s s1] Inr Some
        obtain d where "d \<in> set ?order"
          "hitDisplay e (mediaLeft v) (mediaTop v) (scale_press v) d s = Inr (Some s1)"
          by auto
        then show ?thesis using sub \<open>tgt = Some v\<close> by blast
      qed
    qed
  qed
qed

lemma mousedown_side:
  assumes "mousedown e tgt s = Inr s1" and "idle s" and "activeSideIndex s1 \<noteq> - 1"
  shows "\<exists>d \<in> set (displays s). \<exists>i < 4.
           i < length (corners d) \<and> (i + 1) mod 4 < length (corners d) \<and>
           s1 = pressSide e d (int i) s"
proof -
  have i: "activeSideIndex s = - 1" using assms(2) by (simp add: idle_def)
  from mousedown_cases [OF assms(1)] assms(3) i obtain v d where
    d: "d \<in> set (displays s)" and
    h: "hitDisplay e (mediaLeft v) (mediaTop v) (scale_press v) d s = Inr (Some s1)"
    by (auto simp: press_activeSideIndex)
  from hitDisplay_cases [OF h] assms(3) i obtain r where
    r: "sideLoop (mediaLeft v) (mediaTop v) (scale_press v) \<lparr> px = mouseX e, py = mouseY e \<rparr>
          (corners d) [0, 1, 2, 3] = Inr r" "r \<noteq> - 1" and s1: "s1 = pressSide e d r s"
    by (auto simp: press_activeSideIndex)
  from sideLoop_range [OF r] obtain n where n: "n \<in> set [0, 1, 2, 3 :: nat]" "r = int n"
    "n < length (corners d)" "(n + 1) mod 4 < length (corners d)" by blast
  from n(1) have "n < 4" by auto
  with n(2-4) s1 d show ?thesis by blast
qed

lemma pressSide_sideMode:
  assumes "idle s" "i < 4" "i < length (corners d)" "(i + 1) mod 4 < length (corners d)"
  shows "sideMode (pressSide e d (int i) s) i"
  using assms by (simp add: sideMode_def pressSide_def idle_def saveState_fields)

lemma pressSide_fields:
  "displays (pressSide e d r s) = displays s"
  "activeDisplayId (pressSide e d r s) = did d"
  "originalCorners (pressSide e d r s) = corners d"
  "dragStartX (pressSide e d r s) = mouseX e"
  "dragStartY (pressSide e d r s) = mouseY e"
  by (simp_all add: pressSide_def saveState_displays)

lemma mousemoves_append:
  "mousemoves (xs @ ys) s =
     (case mousemoves xs s of Inl err \<Rightarrow> Inl err | Inr s' \<Rightarrow> mousemoves ys s')"
  by (induction xs arbitrary: s) (auto split: sum.splits)

lemma sideMode_not_idle: "sideMode s i \<Longrightarrow> \<not> idle s"
  by (simp add: sideMode_def idle_def)

lemma mousemove_side:
  assumes "sideMode s1 i" and "\<forall>x \<in> set pre. did x \<noteq> did d"
    and "activeDisplayId s1 = did d" and "length cs = length (originalCorners s1)"
  shows "mousemove mx my v (withCorners s1 pre d post cs) =
     Inr (withCorners s1 pre d post
       (cs[i := shifted (originalCorners s1 ! i)
                  ((mx - dragStartX s1) / scale_move v) ((my - dragStartY s1) / scale_move v),
           (i + 1) mod 4 := shifted (originalCorners s1 ! ((i + 1) mod 4))
                  ((mx - dragStartX s1) / scale_move v) ((my - dragStartY s1) / scale_move v)]))"
proof -
  have m: "moveDisplay mx my v s1 (d\<lparr> corners := cs \<rparr>) = Inr (d\<lparr> corners :=
       cs[i := shifted (originalCorners s1 ! i)
                  ((mx - dragStartX s1) / scale_move v) ((my - dragStartY s1) / scale_move v),
           (i + 1) mod 4 := shifted (originalCorners s1 ! ((i + 1) mod 4))
                  ((mx - dragStartX s1) / scale_move v) ((my - dragStartY s1) / scale_move v)] \<rparr>)"
    unfolding shifted_def
    by (rule moveDisplay_side) (use assms(1,4) in \<open>simp_all add: sideMode_def\<close>)
  show ?thesis
    by (rule mousemove_withCorners [OF assms(2,3) sideMode_not_idle [OF assms(1)] m])
qed

lemma mousemoves_side:
  assumes "sideMode s1 i" and "\<forall>x \<in> set pre. did x \<noteq> did d"
    and "activeDisplayId s1 = did d"
  shows "length cs = length (originalCorners s1) \<Longrightarrow>
         \<forall>k. k \<noteq> i \<and> k \<noteq> (i + 1) mod 4 \<longrightarrow> cs ! k = originalCorners s1 ! k \<Longrightarrow>
         mousemoves ms (withCorners s1 pre d post cs) = Inr s2 \<Longrightarrow>
         \<exists>cs'. s2 = withCorners s1 pre d post cs' \<and> length cs' = length (originalCorners s1) \<and>
           (\<forall>k. k \<noteq> i \<and> k \<noteq> (i + 1) mod 4 \<longrightarrow> cs' ! k = originalCorners s1 ! k)"
proof (induction ms arbitrary: cs)
  case Nil
  then show ?case by auto
next
  case (Cons m ms)
  obtain mx my v where m: "m = (mx, my, v)" by (cases m) auto
  let ?cs1 = "cs[i := shifted (originalCorners s1 ! i)
                  ((mx - dragStartX s1) / scale_move v) ((my - dragStartY s1) / scale_move v),
           (i + 1) mod 4 := shifted (originalCorners s1 ! ((i + 1) mod 4))
                  ((mx - dragStartX s1) / scale_move v) ((my - dragStartY s1) / scale_move v)]"
  from Cons.prems(3) have rest: "mousemoves ms (withCorners s1 pre d post ?cs1) = Inr s2"
    unfolding m by (simp add: mousemove_side [OF assms Cons.prems(1)])
  show ?case
    by (rule Cons.IH [OF _ _ rest]) (use Cons.prems(1,2) in auto)
qed


lemma withCorners_same:
  "displays s1 = pre @ d # post \<Longrightarrow> withCorners s1 pre d post (corners d) = s1"
  by (simp add: withCorners_def)

lemma distinct_first_occurrence:
  assumes "distinct (map f xs)" and "d \<in> set xs"
  shows "\<exists>pre post. xs = pre @ d # post \<and> (\<forall>x \<in> set pre. f x \<noteq> f d)"
proof -
  from split_list [OF assms(2)] obtain pre post where xs: "xs = pre @ d # post" by blast
  with assms(1) have "f d \<notin> f ` set pre" by auto
  then have "\<forall>x \<in> set pre. f x \<noteq> f d" by (metis imageI)
  with xs show ?thesis by blast
qed

text \<open>
  Claim C7. A press that hits side \<open>i\<close> of a region, followed by pointer moves, leaves
  corner \<open>i\<close> and corner \<open>(i + 1) mod 4\<close> of that region displaced from where they were
  at the press by the native delta of the last move, and every other corner where it was.
\<close>

theorem edge_resize_moves_both_ends:
  assumes "idle s" and "distinct (map did (displays s))"
    and "mousedown e tgt s = Inr s1" and "activeSideIndex s1 \<noteq> - 1"
    and "mousemoves (ms @ [(mx, my, v)]) s1 = Inr s2"
  shows "\<exists>d \<in> set (displays s). \<exists>d'. \<exists>i < 4.
           activeSideIndex s1 = int i \<and> activeDisplayId s1 = did d \<and>
           find (\<lambda>x. did x = did d) (displays s2) = Some d' \<and>
           length (corners d') = length (corners d) \<and>
           corners d' ! i =
             shifted (corners d ! i)
               ((mx - mouseX e) / scale_move v) ((my - mouseY e) / scale_move v) \<and>
           corners d' ! ((i + 1) mod 4) =
             shifted (corners d ! ((i + 1) mod 4))
               ((mx - mouseX e) / scale_move v) ((my - mouseY e) / scale_move v) \<and>
           (\<forall>k < length (corners d).
              k \<noteq> i \<and> k \<noteq> (i + 1) mod 4 \<longrightarrow> corners d' ! k = corners d ! k)"
proof -
  from mousedown_side [OF assms(3,1,4)] obtain d i where
    d: "d \<in> set (displays s)" and i: "i < 4" "i < length (corners d)"
      "(i + 1) mod 4 < length (corners d)" and s1: "s1 = pressSide e d (int i) s"
    by blast
  let ?j = "(i + 1) mod 4"
  have ij: "i \<noteq> ?j" using i(1) by presburger
  from distinct_first_occurrence [OF assms(2) d] obtain pre post where
    ds: "displays s = pre @ d # post" and fresh: "\<forall>x \<in> set pre. did x \<noteq> did d" by blast
  have mode: "sideMode s1 i" unfolding s1 by (rule pressSide_sideMode [OF assms(1) i])
  have act: "activeDisplayId s1 = did d" and oc: "originalCorners s1 = corners d"
    and dx: "dragStartX s1 = mouseX e" and dy: "dragStartY s1 = mouseY e"
    and ds1: "displays s1 = pre @ d # post"
    unfolding s1 by (simp_all add: pressSide_fields ds)
  have start: "withCorners s1 pre d post (corners d) = s1" by (rule withCorners_same [OF ds1])
  from assms(5) obtain sm where sm: "mousemoves ms s1 = Inr sm"
    and fin: "mousemove mx my v sm = Inr s2"
    by (auto simp: mousemoves_append split: sum.splits)
  from mousemoves_side [OF mode fresh act, of "corners d" ms post sm] sm
  obtain cs where cs: "sm = withCorners s1 pre d post cs" "length cs = length (corners d)"
    "\<forall>k. k \<noteq> i \<and> k \<noteq> ?j \<longrightarrow> cs ! k = corners d ! k"
    unfolding start oc by auto
  let ?ndx = "(mx - mouseX e) / scale_move v"
  let ?ndy = "(my - mouseY e) / scale_move v"
  let ?cs' = "cs[i := shifted (corners d ! i) ?ndx ?ndy, ?j := shifted (corners d ! ?j) ?ndx ?ndy]"
  have s2: "s2 = withCorners s1 pre d post ?cs'"
    using fin mousemove_side [OF mode fresh act, of cs mx my v post] cs(2)
    unfolding cs(1) oc dx dy by simp
  let ?d' = "d\<lparr> corners := ?cs' \<rparr>"
  have f: "find (\<lambda>x. did x = did d) (displays s2) = Some ?d'"
    unfolding s2 withCorners_def using fresh by (simp add: find_fresh_prefix)
  have a: "?cs' ! i = shifted (corners d ! i) ?ndx ?ndy"
    using ij i(2) cs(2) by simp
  have b: "?cs' ! ?j = shifted (corners d ! ?j) ?ndx ?ndy"
    using i(3) cs(2) by simp
  have c: "\<forall>k < length (corners d). k \<noteq> i \<and> k \<noteq> ?j \<longrightarrow> ?cs' ! k = corners d ! k"
    using cs(3) by simp
  have l: "length (corners ?d') = length (corners d)" using cs(2) by simp
  have si: "activeSideIndex s1 = int i" using mode by (simp add: sideMode_def)
  show ?thesis
    using d i(1) si act f l a b c by (intro bexI [of _ d] exI [of _ ?d'] exI [of _ i]) simp_all
qed


lemma demoEditor_fields:
  "displays demoEditor = [demoRegion]"
  "selectedCameraId demoEditor = Some (JStr ''cam1'')"
  "activeDisplayId demoEditor = Some (JStr ''disp_1'')"
  "undoStack demoEditor = [[]]"
  "redoStack demoEditor = []"
  by (simp_all add: demoEditor_def demoRegion_def startAddDisplayMode_def initial_def
        saveState_def Let_def clone_def newId_def)

lemma demoEditor_idle: "idle demoEditor"
  by (simp add: demoEditor_def idle_def startAddDisplayMode_def initial_def saveState_def Let_def)

lemma demoView_scale: "scale_press demoView = 1" "scale_move demoView = 1"
  by (simp_all add: scale_press_def scale_move_def demoView_def num_or_def)

lemma sqrt_90000: "sqrt 90000 = 300"
  by (rule real_sqrt_unique) simp_all

lemma demoRegion_fields:
  "corners demoRegion = [\<lparr> px = 100, py = 100 \<rparr>, \<lparr> px = 400, py = 100 \<rparr>,
                         \<lparr> px = 400, py = 280 \<rparr>, \<lparr> px = 100, py = 280 \<rparr>]"
  "did demoRegion = Some (JStr ''disp_1'')"
  "camId demoRegion = Some (JStr ''cam1'')"
  by (simp_all add: demoRegion_def)

lemma demoView_fields:
  "mediaLeft demoView = 0" "mediaTop demoView = 0"
  "mediaWidth demoView = 640" "mediaHeight demoView = 480"
  by (simp_all add: demoView_def)

lemma demo_press_top_side:
  "mousedown \<lparr> mouseX = 250, mouseY = 100, altKey = False, timeStamp = 2 \<rparr> (Some demoView)
     demoEditor =
   Inr (pressSide \<lparr> mouseX = 250, mouseY = 100, altKey = False, timeStamp = 2 \<rparr>
          demoRegion 0 demoEditor)"
proof -
  let ?cs = "[\<lparr> px = 100, py = 100 \<rparr>, \<lparr> px = 400, py = 100 \<rparr>,
              \<lparr> px = 400, py = 280 \<rparr>, \<lparr> px = 100, py = 280 :: real \<rparr>]"
  have nc: "cornerHandle 0 0 1 250 100 ?cs = - 1"
    by (simp add: cornerHandle_def upt_rec)
  have rh: "rotationHandle 0 0 1 \<lparr> px = 100, py = 100 \<rparr> \<lparr> px = 400, py = 100 \<rparr>
              = \<lparr> px = 250, py = 140 \<rparr>"
    by (simp add: rotationHandle_def toRendered_def Let_def sqrt_90000 num_or_def)
  have sl: "sideLoop 0 0 1 \<lparr> px = 250, py = 100 \<rparr> ?cs [0, Suc 0, 2, 3] = Inr 0"
    by (simp add: distToSegment_def toRendered_def Let_def)
  have hd: "hitDisplay \<lparr> mouseX = 250, mouseY = 100, altKey = False, timeStamp = 2 \<rparr> 0 0 1
              demoRegion s
            = Inr (Some (pressSide \<lparr> mouseX = 250, mouseY = 100, altKey = False, timeStamp = 2 \<rparr>
                demoRegion 0 s))" for s
    unfolding hitDisplay_def
    by (simp add: demoRegion_fields nc rh sl del: sideLoop.simps)
  show ?thesis
    unfolding mousedown_def
    by (simp add: demoEditor_fields demoView_scale demoView_fields demoRegion_fields hd)
qed


theorem edge_resize_moves_both_ends_witness:
  "\<exists>s1 s2 d'.
     idle demoEditor \<and> distinct (map did (displays demoEditor)) \<and>
     mousedown \<lparr> mouseX = 250, mouseY = 100, altKey = False, timeStamp = 2 \<rparr>
       (Some demoView) demoEditor = Inr s1 \<and>
     activeSideIndex s1 \<noteq> - 1 \<and>
     mousemoves ([] @ [(260, 130, demoView)]) s1 = Inr s2 \<and>
     find (\<lambda>x. did x = did demoRegion) (displays s2) = Some d' \<and>
     corners d' = [\<lparr> px = 110, py = 130 \<rparr>, \<lparr> px = 410, py = 130 \<rparr>,
                   \<lparr> px = 400, py = 280 \<rparr>, \<lparr> px = 100, py = 280 \<rparr>]"
proof -
  let ?e = "\<lparr> mouseX = 250, mouseY = 100, altKey = False, timeStamp = 2 \<rparr>"
  let ?s1 = "pressSide ?e demoRegion 0 demoEditor"
  have dist: "distinct (map did (displays demoEditor))" by (simp add: demoEditor_fields)
  have side: "activeSideIndex ?s1 \<noteq> - 1" by (simp add: press_activeSideIndex)
  have mode: "sideMode ?s1 0"
    using pressSide_sideMode [OF demoEditor_idle, of 0 demoRegion ?e]
    by (simp add: demoRegion_fields)
  have same: "withCorners ?s1 [] demoRegion [] (corners demoRegion) = ?s1"
    by (rule withCorners_same) (simp add: pressSide_fields demoEditor_fields)
  from mousemove_side [OF mode, of "[]" demoRegion "corners demoRegion" 260 130 demoView "[]"]
  obtain s2 where mv: "mousemoves ([] @ [(260, 130, demoView)]) ?s1 = Inr s2"
    unfolding same by (simp add: pressSide_fields)
  from edge_resize_moves_both_ends [OF demoEditor_idle dist demo_press_top_side side mv]
  obtain d d' i where d: "d \<in> set (displays demoEditor)" and i: "activeSideIndex ?s1 = int i"
    and f: "find (\<lambda>x. did x = did d) (displays s2) = Some d'"
    and l: "length (corners d') = length (corners d)"
    and a: "corners d' ! i = shifted (corners d ! i) ((260 - mouseX ?e) / scale_move demoView)
              ((130 - mouseY ?e) / scale_move demoView)"
    and b: "corners d' ! ((i + 1) mod 4) =
              shifted (corners d ! ((i + 1) mod 4)) ((260 - mouseX ?e) / scale_move demoView)
              ((130 - mouseY ?e) / scale_move demoView)"
    and c: "\<forall>k < length (corners d).
              k \<noteq> i \<and> k \<noteq> (i + 1) mod 4 \<longrightarrow> corners d' ! k = corners d ! k"
    by blast
  have d': "d = demoRegion" using d by (simp add: demoEditor_fields)
  have i0: "i = 0" using i by (simp add: press_activeSideIndex)
  have c0: "corners d' ! 0 = \<lparr> px = 110, py = 130 \<rparr>"
    using a unfolding d' i0 by (simp add: demoRegion_fields shifted_def demoView_scale)
  have c1: "corners d' ! 1 = \<lparr> px = 410, py = 130 \<rparr>"
    using b unfolding d' i0 by (simp add: demoRegion_fields shifted_def demoView_scale)
  have c2: "corners d' ! 2 = \<lparr> px = 400, py = 280 \<rparr>"
    using c unfolding d' i0 by (simp add: demoRegion_fields)
  have c3: "corners d' ! 3 = \<lparr> px = 100, py = 280 \<rparr>"
    using c unfolding d' i0 by (simp add: demoRegion_fields)
  have l4: "length (corners d') = 4" using l unfolding d' by (simp add: demoRegion_fields)
  have cs: "corners d' = [\<lparr> px = 110, py = 130 \<rparr>, \<lparr> px = 410, py = 130 \<rparr>,
                   \<lparr> px = 400, py = 280 \<rparr>, \<lparr> px = 100, py = 280 \<rparr>]"
    using l4 c0 c1 c2 c3
    by (auto simp: list_eq_iff_nth_eq less_Suc_eq numeral_eq_Suc)
  show ?thesis
    using demoEditor_idle dist demo_press_top_side side mv f cs unfolding d' by blast
qed

section \<open>Drawing a region\<close>

lemma mousedown_draw:
  assumes "mousedown e (Some v) s = Inr s1" and "idle s" and "isDrawing s1"
  shows "s1 = startDrawing e (mediaLeft v) (mediaTop v) (scale_press v) s"
proof -
  have nd: "\<not> isDrawing s" using assms(2) by (simp add: idle_def)
  from mousedown_cases [OF assms(1)] consider "s1 = s"
    | "s1 = startDrawing e (mediaLeft v) (mediaTop v) (scale_press v) s"
    | d where "hitDisplay e (mediaLeft v) (mediaTop v) (scale_press v) d s = Inr (Some s1)"
    by auto
  then show ?thesis
  proof cases
    case 1
    then show ?thesis using nd assms(3) by simp
  next
    case 2
    then show ?thesis .
  next
    case 3
    from hitDisplay_cases [OF 3] have "isDrawing s1 = isDrawing s"
      by (auto simp: press_isDrawing)
    then show ?thesis using nd assms(3) by simp
  qed
qed

lemma startDrawing_fields:
  "displays (startDrawing e ox oy k s) =
     displays s @ [\<lparr> did = newId (timeStamp e), dname = Some (JStr ''New Display''),
                     camId = selectedCameraId s,
                     corners = rectCorners \<lparr> px = (mouseX e - ox) / k, py = (mouseY e - oy) / k \<rparr>
                                 \<lparr> px = (mouseX e - ox) / k, py = (mouseY e - oy) / k \<rparr>,
                     rotation = Rot 0, enablePerspective = Some (JBool False),
                     box_x = None, box_y = None, box_w = None, box_h = None, extra = [] \<rparr>]"
  "activeDisplayId (startDrawing e ox oy k s) = newId (timeStamp e)"
  "drawingDisplayId (startDrawing e ox oy k s) = newId (timeStamp e)"
  "originalCorners (startDrawing e ox oy k s) =
     rectCorners \<lparr> px = (mouseX e - ox) / k, py = (mouseY e - oy) / k \<rparr>
                 \<lparr> px = (mouseX e - ox) / k, py = (mouseY e - oy) / k \<rparr>"
  "dragStartX (startDrawing e ox oy k s) = mouseX e"
  "dragStartY (startDrawing e ox oy k s) = mouseY e"
  "isDrawing (startDrawing e ox oy k s)"
  "isRotating (startDrawing e ox oy k s) = isRotating s"
  by (simp_all add: startDrawing_def Let_def saveState_fields saveState_displays rectCorners_def)

lemma moveDisplay_draw:
  assumes "\<not> isRotating s1" and "isDrawing s1" and "originalCorners s1 = rectCorners p p"
  shows "moveDisplay mx my v s1 (d\<lparr> corners := rectCorners p q \<rparr>) =
     Inr (d\<lparr> corners := rectCorners p
       (shifted p ((mx - dragStartX s1) / scale_move v) ((my - dragStartY s1) / scale_move v)) \<rparr>)"
  using assms
  by (simp add: moveDisplay_def Let_def rectCorners_def shifted_def point_update_both)

lemma mousemove_draw:
  assumes "\<not> isRotating s1" and "isDrawing s1" and "originalCorners s1 = rectCorners p p"
    and "\<forall>x \<in> set pre. did x \<noteq> did d" and "activeDisplayId s1 = did d"
  shows "mousemove mx my v (withCorners s1 pre d post (rectCorners p q)) =
     Inr (withCorners s1 pre d post (rectCorners p
       (shifted p ((mx - dragStartX s1) / scale_move v) ((my - dragStartY s1) / scale_move v))))"
proof -
  have ni: "\<not> idle s1" using assms(2) by (simp add: idle_def)
  show ?thesis
    by (rule mousemove_withCorners [OF assms(4,5) ni moveDisplay_draw [OF assms(1-3)]])
qed

lemma mousemoves_draw:
  assumes "\<not> isRotating s1" and "isDrawing s1" and "originalCorners s1 = rectCorners p p"
    and "\<forall>x \<in> set pre. did x \<noteq> did d" and "activeDisplayId s1 = did d"
  shows "mousemoves ms (withCorners s1 pre d post (rectCorners p q)) =
     Inr (withCorners s1 pre d post (rectCorners p
       (case last ((mx0, my0, v0) # ms) of (mx, my, v) \<Rightarrow>
          if ms = [] then q
          else shifted p ((mx - dragStartX s1) / scale_move v)
                         ((my - dragStartY s1) / scale_move v))))"
proof (induction ms arbitrary: q)
  case Nil
  then show ?case by simp
next
  case (Cons m ms)
  obtain mx my v where m: "m = (mx, my, v)" by (cases m) auto
  show ?case
    unfolding m
    by (cases "ms = []") (simp_all add: mousemove_draw [OF assms] Cons.IH)
qed

lemma mouseup_draw:
  assumes "isDrawing s1" and "truthy (drawingDisplayId s1)" and "drawingDisplayId s1 = did d"
    and "\<forall>x \<in> set pre. did x \<noteq> did d"
  shows "mouseup (withCorners s1 pre d [] (rectCorners p q)) =
     Inr ((if \<bar>px p - px q\<bar> < 20 \<or> \<bar>py p - py q\<bar> < 20
           then s1\<lparr> displays := pre, activeDisplayId := Some JNull \<rparr>
           else withCorners s1 pre d [] (rectCorners p q))
          \<lparr> isDragging := False, isResizing := False, isDrawing := False,
            isRotating := False, activeCornerIndex := - 1, activeSideIndex := - 1 \<rparr>)"
proof -
  let ?P = "\<lambda>x. did x = did d"
  let ?d = "d\<lparr> corners := [p, \<lparr> px = px q, py = py p \<rparr>, q, \<lparr> px = px p, py = py q \<rparr>] \<rparr>"
  have f: "find ?P (pre @ [?d]) = Some ?d"
    by (rule find_fresh_prefix) (use assms(4) in auto)
  have flt: "filter (\<lambda>x. did x \<noteq> did d) pre = pre"
    using assms(4) by (simp add: filter_id_conv)
  show ?thesis
    using assms(1,2) unfolding mouseup_def withCorners_def rectCorners_def
    by (simp add: assms(3) f flt Let_def)
qed

lemma boundingBox_rectCorners:
  "boundingBox (rectCorners p q) =
     Some (min (px p) (px q), min (py p) (py q), \<bar>px q - px p\<bar>, \<bar>py q - py p\<bar>)"
  by (auto simp: boundingBox_def rectCorners_def Let_def min_def max_def)


lemma toNative_shifted:
  assumes "k \<noteq> 0"
  shows "shifted (toNative ox oy k \<lparr> px = ax, py = ay \<rparr>) ((mx - ax) / k) ((my - ay) / k)
           = toNative ox oy k \<lparr> px = mx, py = my \<rparr>"
  by (simp add: shifted_def toNative_def add_divide_distrib [symmetric])

text \<open>
  Claim C1. A press on free space of the shown media starts a region anchored at the
  native press point \<open>p0\<close>; the pointer moves and ends at the native point \<open>p1\<close>; the
  release then either removes the region again, when it is narrower or lower than 20
  native pixels, leaving the region list as it was before the press, or keeps it as the
  last region, with the corners of the rectangle spanned by \<open>p0\<close> and \<open>p1\<close> and hence the
  bounding box \<open>(min x0 x1, min y0 y1, |x1 - x0|, |y1 - y0|)\<close>.
\<close>

theorem draw_release:
  assumes "idle s"
    and "\<forall>x \<in> set (displays s). did x \<noteq> newId (timeStamp e)"
    and "mousedown e (Some v) s = Inr s1" and "isDrawing s1"
    and "last ((mouseX e, mouseY e, v) # ms) = (mx, my, v')"
    and "scale_move v' = scale_press v" and "scale_press v \<noteq> 0"
    and "p0 = toNative (mediaLeft v) (mediaTop v) (scale_press v) \<lparr> px = mouseX e, py = mouseY e \<rparr>"
    and "p1 = toNative (mediaLeft v) (mediaTop v) (scale_press v) \<lparr> px = mx, py = my \<rparr>"
  shows "\<exists>s2 s3. mousemoves ms s1 = Inr s2 \<and> mouseup s2 = Inr s3 \<and> idle s3 \<and>
          (if \<bar>px p1 - px p0\<bar> < 20 \<or> \<bar>py p1 - py p0\<bar> < 20 then displays s3 = displays s
           else \<exists>d. displays s3 = displays s @ [d] \<and> did d = newId (timeStamp e) \<and>
                  corners d = rectCorners p0 p1 \<and>
                  boundingBox (corners d) =
                    Some (min (px p0) (px p1), min (py p0) (py p1),
                          \<bar>px p1 - px p0\<bar>, \<bar>py p1 - py p0\<bar>))"
proof -
  let ?ox = "mediaLeft v" and ?oy = "mediaTop v" and ?k = "scale_press v"
  let ?newD = "\<lparr> did = newId (timeStamp e), dname = Some (JStr ''New Display''),
                 camId = selectedCameraId s, corners = rectCorners p0 p0,
                 rotation = Rot 0, enablePerspective = Some (JBool False),
                 box_x = None, box_y = None, box_w = None, box_h = None, extra = [] \<rparr>"
  have s1: "s1 = startDrawing e ?ox ?oy ?k s" by (rule mousedown_draw [OF assms(3,1,4)])
  have p0': "p0 = \<lparr> px = (mouseX e - ?ox) / ?k, py = (mouseY e - ?oy) / ?k \<rparr>"
    unfolding assms(8) by (simp add: toNative_def)
  have ds1: "displays s1 = displays s @ ?newD # []"
    and act: "activeDisplayId s1 = did ?newD" and drw: "drawingDisplayId s1 = did ?newD"
    and oc: "originalCorners s1 = rectCorners p0 p0"
    and dx: "dragStartX s1 = mouseX e" and dy: "dragStartY s1 = mouseY e"
    and nr: "\<not> isRotating s1"
    unfolding s1 p0' using assms(1) by (simp_all add: startDrawing_fields idle_def)
  have fresh: "\<forall>x \<in> set (displays s). did x \<noteq> did ?newD" using assms(2) by simp
  have tr: "truthy (drawingDisplayId s1)" unfolding drw by (simp add: newId_def)
  have start: "withCorners s1 (displays s) ?newD [] (rectCorners p0 p0) = s1"
    using withCorners_same [OF ds1] by simp
  define q where "q = (if ms = [] then p0
       else shifted p0 ((mx - mouseX e) / scale_move v') ((my - mouseY e) / scale_move v'))"
  have mv: "mousemoves ms s1 = Inr (withCorners s1 (displays s) ?newD [] (rectCorners p0 q))"
    using mousemoves_draw [OF nr assms(4) oc fresh act, of ms "[]" p0 "mouseX e" "mouseY e" v]
    unfolding start assms(5) q_def dx dy by simp
  have q: "q = p1"
  proof (cases "ms = []")
    case True
    then have "mx = mouseX e" "my = mouseY e" using assms(5) by simp_all
    then show ?thesis unfolding q_def assms(8,9) using True by simp
  next
    case False
    then show ?thesis
      unfolding q_def assms(6,8,9) by (simp add: toNative_shifted [OF assms(7)])
  qed
  let ?s2 = "withCorners s1 (displays s) ?newD [] (rectCorners p0 p1)"
  let ?s3 = "(if \<bar>px p0 - px p1\<bar> < 20 \<or> \<bar>py p0 - py p1\<bar> < 20
           then s1\<lparr> displays := displays s, activeDisplayId := Some JNull \<rparr>
           else ?s2)
          \<lparr> isDragging := False, isResizing := False, isDrawing := False,
            isRotating := False, activeCornerIndex := - 1, activeSideIndex := - 1 \<rparr>"
  have up: "mouseup ?s2 = Inr ?s3"
    by (rule mouseup_draw [OF assms(4) tr drw fresh])
  have idle3: "idle ?s3" by (simp add: idle_def)
  have small: "(\<bar>px p0 - px p1\<bar> < 20 \<or> \<bar>py p0 - py p1\<bar> < 20) =
               (\<bar>px p1 - px p0\<bar> < 20 \<or> \<bar>py p1 - py p0\<bar> < 20)"
    by (simp add: abs_minus_commute)
  have res: "if \<bar>px p1 - px p0\<bar> < 20 \<or> \<bar>py p1 - py p0\<bar> < 20 then displays ?s3 = displays s
           else \<exists>d. displays ?s3 = displays s @ [d] \<and> did d = newId (timeStamp e) \<and>
                  corners d = rectCorners p0 p1 \<and>
                  boundingBox (corners d) =
                    Some (min (px p0) (px p1), min (py p0) (py p1),
                          \<bar>px p1 - px p0\<bar>, \<bar>py p1 - py p0\<bar>)"
    unfolding small [symmetric]
    by (simp add: withCorners_def boundingBox_rectCorners)
  show ?thesis
    using mv up idle3 res unfolding q by blast
qed


lemma press_on_empty:
  assumes "displays s = []" and "0 \<le> mouseX e" "mouseX e \<le> 640" "0 \<le> mouseY e" "mouseY e \<le> 480"
  shows "mousedown e (Some demoView) s = Inr (startDrawing e 0 0 1 s)"
  using assms unfolding mousedown_def
  by (simp add: demoView_fields demoView_scale)

theorem draw_release_witness:
  "\<exists>s1 s2 s3 d t1 t2 t3.
     idle (initial []) \<and>
     mousedown \<lparr> mouseX = 0, mouseY = 0, altKey = False, timeStamp = 5 \<rparr> (Some demoView)
       (initial []) = Inr s1 \<and>
     isDrawing s1 \<and>
     mousemoves [(50, 60, demoView), (100, 100, demoView)] s1 = Inr s2 \<and>
     mouseup s2 = Inr s3 \<and> displays s3 = [d] \<and>
     corners d = [\<lparr> px = 0, py = 0 \<rparr>, \<lparr> px = 100, py = 0 \<rparr>,
                  \<lparr> px = 100, py = 100 \<rparr>, \<lparr> px = 0, py = 100 \<rparr>] \<and>
     boundingBox (corners d) = Some (0, 0, 100, 100) \<and>
     mousedown \<lparr> mouseX = 0, mouseY = 0, altKey = False, timeStamp = 5 \<rparr> (Some demoView)
       (initial []) = Inr t1 \<and>
     mousemoves [(10, 10, demoView)] t1 = Inr t2 \<and>
     mouseup t2 = Inr t3 \<and> displays t3 = []"
proof -
  let ?e = "\<lparr> mouseX = 0, mouseY = 0, altKey = False, timeStamp = 5 \<rparr>"
  let ?s1 = "startDrawing ?e 0 0 1 (initial [])"
  have idl: "idle (initial [])" by (simp add: idle_def initial_def)
  have fresh: "\<forall>x \<in> set (displays (initial [])). did x \<noteq> newId (timeStamp ?e)"
    by (simp add: initial_def)
  have down: "mousedown ?e (Some demoView) (initial []) = Inr ?s1"
    by (rule press_on_empty) (simp_all add: initial_def)
  have drawing: "isDrawing ?s1" by (simp add: startDrawing_fields)
  have sc: "scale_move demoView = scale_press demoView" "scale_press demoView \<noteq> 0"
    by (simp_all add: demoView_scale)
  have p0: "\<lparr> px = 0, py = 0 \<rparr> = toNative (mediaLeft demoView) (mediaTop demoView)
              (scale_press demoView) \<lparr> px = mouseX ?e, py = mouseY ?e \<rparr>"
    by (simp add: toNative_def demoView_fields demoView_scale)
  have p1: "\<lparr> px = 100, py = 100 \<rparr> = toNative (mediaLeft demoView) (mediaTop demoView)
              (scale_press demoView) \<lparr> px = 100, py = 100 \<rparr>"
    by (simp add: toNative_def demoView_fields demoView_scale)
  have q1: "\<lparr> px = 10, py = 10 \<rparr> = toNative (mediaLeft demoView) (mediaTop demoView)
              (scale_press demoView) \<lparr> px = 10, py = 10 \<rparr>"
    by (simp add: toNative_def demoView_fields demoView_scale)
  have l1: "last ((mouseX ?e, mouseY ?e, demoView) # [(50, 60, demoView), (100, 100, demoView)])
              = (100, 100, demoView)" by simp
  have l2: "last ((mouseX ?e, mouseY ?e, demoView) # [(10, 10, demoView)]) = (10, 10, demoView)"
    by simp
  from draw_release [OF idl fresh down drawing l1 sc p0 p1]
  obtain s2 s3 d where a: "mousemoves [(50, 60, demoView), (100, 100, demoView)] ?s1 = Inr s2"
    "mouseup s2 = Inr s3" "displays s3 = displays (initial []) @ [d]"
    "corners d = rectCorners \<lparr> px = 0, py = 0 \<rparr> \<lparr> px = 100, py = 100 \<rparr>"
    "boundingBox (corners d) = Some (min 0 100, min 0 100, \<bar>100 - 0\<bar>, \<bar>100 - 0\<bar>)"
    by auto
  from draw_release [OF idl fresh down drawing l2 sc p0 q1]
  obtain t2 t3 where b: "mousemoves [(10, 10, demoView)] ?s1 = Inr t2"
    "mouseup t2 = Inr t3" "displays t3 = displays (initial [])"
    by auto
  have c: "displays s3 = [d]" using a(3) by (simp add: initial_def)
  have d: "corners d = [\<lparr> px = 0, py = 0 \<rparr>, \<lparr> px = 100, py = 0 \<rparr>,
                  \<lparr> px = 100, py = 100 \<rparr>, \<lparr> px = 0, py = 100 \<rparr>]"
    using a(4) by (simp add: rectCorners_def)
  have e: "boundingBox (corners d) = Some (0, 0, 100, 100)" using a(5) by simp
  have f: "displays t3 = []" using b(3) by (simp add: initial_def)
  show ?thesis using idl down drawing a(1,2) c d e b(1,2) f by blast
qed

section \<open>The rotation field\<close>

lemma js_rem_normalised:
  "(if js_rem a 360 < 0 then js_rem a 360 + 360 else js_rem a 360) = a mod 360"
proof (cases "0 \<le> a")
  case True
  have "0 \<le> a mod 360" by simp
  then have "\<not> a mod 360 < 0" by linarith
  then show ?thesis using True by (simp add: js_rem_def sgn_if)
next
  case False
  then have neg: "a < 0" by simp
  show ?thesis
  proof (cases "(- a) mod 360 = 0")
    case True
    then have "a mod 360 = 0" by (metis dvd_minus_iff mod_0_imp_dvd dvd_imp_mod_0)
    then show ?thesis using neg True by (simp add: js_rem_def sgn_if)
  next
    case False
    have pos: "0 < (- a) mod 360" using False by (simp add: le_less)
    have "a mod 360 = 360 - (- a) mod 360"
      using False zmod_zminus1_eq_if [of "- a" 360] by simp
    then show ?thesis using neg pos by (simp add: js_rem_def sgn_if)
  qed
qed

lemma rotate_gesture_rotation:
  assumes "isRotating s"
  shows "\<exists>d'. moveDisplay mx my v s d = Inr d' \<and>
           rotation d' = Rot ((rotateStartValue s +
              round (atan2 (my - (mediaTop v + py (displayCenter s) * scale_move v))
                           (mx - (mediaLeft v + px (displayCenter s) * scale_move v)) * 180 / pi
                     - rotateStartAngle s)) mod 360) \<and>
           rotationInRange (rotation d')"
  using assms
  by (simp add: moveDisplay_def Let_def js_rem_normalised rotationInRange_def)

lemma parseInt_str_400: "parseInt_str ''400'' = Some 400"
  by (simp add: parseInt_str_def strip_sign_def is_ws_def is_digit_def numeral_val_def
        digit_val_def)

lemma parseInt_str_empty: "parseInt_str [] = None"
  by (simp add: parseInt_str_def strip_sign_def)

text \<open>
  Claim C5 does not hold of the code. The Update button stores whatever \<^verbatim>\<open>parseInt\<close> makes of
  the panel's rotation field: 400 for the text \<^verbatim>\<open>400\<close>, \<^verbatim>\<open>NaN\<close> for the empty text. Loading
  keeps a stored rotation of 720 as it is. Only the rotate gesture normalises.
\<close>

theorem rotation_not_normalised:
  "map rotation (displays (updateDisplay ''Cluster'' ''400'' False demoEditor)) = [Rot 400] \<and>
   \<not> rotationInRange (Rot 400) \<and>
   map rotation (displays (updateDisplay ''Cluster'' [] False demoEditor)) = [RotNaN] \<and>
   \<not> rotationInRange RotNaN \<and>
   map_option (map rotation \<circ> displays)
     (loadConfig (JArr [JObj [(''rotation'', JNum 720)]]) (initial [])) = Some [Rot 720] \<and>
   \<not> rotationInRange (Rot 720)"
proof -
  have f: "find (\<lambda>x. did x = activeDisplayId demoEditor) (displays demoEditor) = Some demoRegion"
    by (simp add: demoEditor_fields demoRegion_fields)
  have a: "map rotation (displays (updateDisplay ''Cluster'' ''400'' False demoEditor)) = [Rot 400]"
    by (simp add: updateDisplay_def f Let_def parseInt_str_400 saveState_displays
          demoEditor_fields demoRegion_fields)
  have b: "map rotation (displays (updateDisplay ''Cluster'' [] False demoEditor)) = [RotNaN]"
    by (simp add: updateDisplay_def f Let_def parseInt_str_empty saveState_displays
          demoEditor_fields demoRegion_fields)
  have c: "map_option (map rotation \<circ> displays)
             (loadConfig (JArr [JObj [(''rotation'', JNum 720)]]) (initial [])) = Some [Rot 720]"
    by (simp add: loadConfig_def loadDisplays_def loadRecord_def parseNum_def Let_def
          num_to_int_def)
  show ?thesis using a b c by (simp add: rotationInRange_def)
qed

section \<open>Loading\<close>

lemma forEach_length: "forEach f xs = Inr ys \<Longrightarrow> length ys = length xs"
  by (induction xs arbitrary: ys) (auto split: sum.splits)

lemma those_length: "those xs = Some ys \<Longrightarrow> length ys = length xs"
  by (induction xs arbitrary: ys) (auto split: option.splits)

lemma loadRecord_four_corners: "loadRecord kvs = Inr (Some d) \<Longrightarrow> length (corners d) = 4"
  unfolding loadRecord_def Let_def
  by (auto split: if_splits option.splits json.splits sum.splits
        dest!: forEach_length those_length)

lemma loadRecord_rebuilds:
  assumes "\<not> (truthy (map_of kvs ''corners'') \<and> hasLength4 (map_of kvs ''corners''))"
    and "parseNum (map_of kvs ''x'') = Some x" and "parseNum (map_of kvs ''y'') = Some y"
    and "parseNum (map_of kvs ''w'') = Some w" and "parseNum (map_of kvs ''h'') = Some h"
  shows "\<exists>d. loadRecord kvs = Inr (Some d) \<and>
           corners d = [\<lparr> px = x, py = y \<rparr>, \<lparr> px = x + w, py = y \<rparr>,
                        \<lparr> px = x + w, py = y + h \<rparr>, \<lparr> px = x, py = y + h \<rparr>]"
  using assms unfolding loadRecord_def Let_def by auto

text \<open>
  The only numbers \<^verbatim>\<open>parseNum\<close> cannot turn into a coordinate are the infinities, which
  need the text \<^verbatim>\<open>Infinity\<close> in the configuration.
\<close>

lemma parseNum_number: "parseNum (Some (JNum r)) = Some r"
  by (simp add: parseNum_def)

lemma parseNum_undefined: "parseNum None = Some 0"
  by (simp add: parseNum_def)

lemma parseNum_Infinity: "parseNum (Some (JStr ''Infinity'')) = None"
  by (simp add: parseNum_def parseFloat_str_def strip_sign_def is_ws_def)

text \<open>
  Input that leaves the data model: corners that are arrays, a region that is an array, an
  infinite coordinate. The code assigns the list all the same; the model has no editor
  state for it.
\<close>

lemma loadConfig_array_corners:
  "loadConfig (JArr [JObj [(''corners'', JArr [JArr [], JArr [], JArr [], JArr []])]]) s = None"
  by (simp add: loadConfig_def loadDisplays_def loadRecord_def parseNum_def Let_def)

lemma loadConfig_array_region: "loadConfig (JArr [JArr []]) s = None"
  by (simp add: loadConfig_def loadDisplays_def)

lemma loadConfig_infinite_coordinate:
  "loadConfig (JArr [JObj [(''x'', JStr ''Infinity'')]]) s = None"
  by (simp add: loadConfig_def loadDisplays_def loadRecord_def parseNum_Infinity
        parseNum_undefined Let_def)

text \<open>
  A state that \<^verbatim>\<open>loadConfig\<close> produces differs from the one before in its regions only.
\<close>

lemma loadConfig_regions:
  "loadConfig data s = Some s' \<Longrightarrow> s' = s \<or> (\<exists>ds. s' = s\<lparr> displays := ds \<rparr>)"
  by (auto simp: loadConfig_def split: sum.splits loaded.splits)

text \<open>
  Claim C8 does not hold of the code. A record whose \<^verbatim>\<open>corners\<close> array has four elements
  that are not objects makes the traversal throw; the \<^verbatim>\<open>catch\<close> clause logs the error and
  nothing is loaded, the well-formed records of the same file included.
\<close>

theorem loadConfig_null_corners:
  "loadDisplays (JArr [JObj [(''id'', JStr ''disp_1''),
                             (''corners'', JArr [JNull, JNull, JNull, JNull])]])
     = Inl TypeError \<and>
   loadConfig (JArr [JObj [(''id'', JStr ''disp_0''), (''x'', JNum 10), (''y'', JNum 20),
                           (''w'', JNum 300), (''h'', JNum 180)],
                     JObj [(''id'', JStr ''disp_1''),
                           (''corners'', JArr [JNull, JNull, JNull, JNull])]]) (initial [])
     = Some (initial []) \<and>
   (\<exists>ds. loadDisplays (JArr [JObj [(''id'', JStr ''disp_0''), (''x'', JNum 10), (''y'', JNum 20),
                           (''w'', JNum 300), (''h'', JNum 180)]]) = Inr (Regions ds) \<and>
         length ds = 1)"
  by (simp add: loadConfig_def loadDisplays_def loadRecord_def parseNum_def Let_def)

end
